theory Spec2Isabelle
  imports Main "HOL-Library.Sublist" "HOL-Library.Multiset"
begin

section \<open>Data model of \<open>aws_status_slack.py\<close>\<close>

text \<open>
  The script polls AWS status RSS feeds and posts the newest item of a feed to a Slack
  webhook when it is more recent than the last one seen. Everything lives in one
  function, \<open>check_loop\<close>, with three helpers \<open>fetch\<close>, \<open>last_pub_date\<close> and
  \<open>send_to_slack\<close>.

  A \<open>datetime\<close> is modelled by its position on the time line (an integer, say
  microseconds since the epoch): the script only ever compares datetimes with \<open>>\<close>.
  \<open>published_parsed\<close> of an entry is modelled by the datetime that
  \<open>datetime.datetime(*published_parsed[:6])\<close> builds from it.
\<close>

type_synonym datetime = int

record entry =
  title :: string
  link :: string
  summary :: string
  published_parsed :: datetime

text \<open>
  The part of a \<open>feedparser.FeedParserDict\<close> the script reads. The key \<open>status\<close> is
  there only when an HTTP response came back: after a network failure feedparser returns
  a dictionary without it (\<open>None\<close> here) and with no entries, and \<open>data.status\<close> raises
  \<open>AttributeError\<close>.
\<close>

record FeedParserDict =
  status :: "int option"
  entries :: "entry list"

text \<open>The dictionary that \<open>send_to_slack\<close> serialises with \<open>json.dumps\<close>.\<close>

record attachment =
  color :: string
  att_title :: string
  title_link :: string
  att_text :: string

record payload =
  username :: string
  icon_url :: string
  channel :: string
  attachments :: "attachment list"

datatype level = DEBUG | INFO | WARNING | ERROR

datatype arg = Str string | Date datetime | Data FeedParserDict

text \<open>
  What the script does to the outside world, in the order it does it: a call of
  \<open>fetch\<close> (with the parsed feed that came back), a \<open>time.sleep\<close>, a
  \<open>requests.post\<close> to the webhook, a call of the \<open>logging\<close> module (format string
  and arguments).
\<close>

datatype event =
    Fetch string FeedParserDict
  | Sleep nat
  | Post string payload
  | Log level string "arg list"

text \<open>
  The exceptions that can leave a function of the script: the four of Python's own
  (\<open>xs[0]\<close> on an empty list, \<open>d[k]\<close> on a missing key, \<open>xs.remove(x)\<close> on a missing
  element, \<open>data.status\<close> on a parsed feed without a status), the one \<open>requests.post\<close>
  raises when the endpoint cannot be reached, and \<open>SystemExit\<close>, raised by \<open>sys.exit\<close>.
  Nothing in the script catches any of them.
\<close>

datatype error =
  IndexError | KeyError | ValueError | AttributeError | ConnectionError | SystemExit int

text \<open>
  The exit status of the interpreter when an exception reaches the top level:
  the code of a \<open>SystemExit\<close>, and 1 (after a traceback) for any other exception.
\<close>

fun exit_status :: "error \<Rightarrow> int" where
  "exit_status (SystemExit code) = code"
| "exit_status _ = 1"

datatype post_outcome = Responded int | Unreachable

text \<open>
  The environment. \<open>START_TIME\<close> is \<open>datetime.datetime.now()\<close> at import.
  \<open>feedparser_parse w t url\<close> is what \<open>feedparser.parse(url)\<close> returns when called at
  logical time \<open>t\<close> (the number of events so far), and \<open>requests_post w t\<close> is how
  a \<open>requests.post\<close> made at time \<open>t\<close> ends: with a response carrying an HTTP status
  code, or with a \<open>ConnectionError\<close>.
\<close>

record world =
  START_TIME :: datetime
  feedparser_parse :: "nat \<Rightarrow> string \<Rightarrow> FeedParserDict"
  requests_post :: "nat \<Rightarrow> post_outcome"

text \<open>
  The variables of \<open>check_loop\<close>: the list \<open>feeds\<close> (the caller's list object, mutated
  in place), the dictionary \<open>last_saved_dates\<close>, and the events so far.
\<close>

record state =
  feeds :: "string list"
  last_saved_dates :: "string \<rightharpoonup> datetime"
  trace :: "event list"

type_synonym outcome = "(error \<times> state) + state"

section \<open>Constants and helpers\<close>

definition AWS_RSS_URL :: "string \<Rightarrow> string" where
  "AWS_RSS_URL feed = ''http://status.aws.amazon.com/rss/'' @ feed @ ''.rss''"

definition REQUESTS_INTERVAL :: nat where
  "REQUESTS_INTERVAL = 2"

definition CHECKS_INTERVAL :: nat where
  "CHECKS_INTERVAL = 60"

definition emit :: "event \<Rightarrow> state \<Rightarrow> state" where
  "emit e s = s\<lparr>trace := trace s @ [e]\<rparr>"

text \<open>The state in which a run stands, whether an exception ended it or not.\<close>

definition state_of :: "outcome \<Rightarrow> state" where
  "state_of r = (case r of Inl (e, s) \<Rightarrow> s | Inr s \<Rightarrow> s)"

text \<open>Python's \<open>sub in s\<close> on strings.\<close>

fun str_in :: "string \<Rightarrow> string \<Rightarrow> bool" where
  "str_in sub [] = (sub = [])"
| "str_in sub (c # cs) = (prefix sub (c # cs) \<or> str_in sub cs)"

text \<open>Observations on a trace: the posts made, the feeds fetched, the seconds slept.\<close>

fun posts :: "event list \<Rightarrow> (string \<times> payload) list" where
  "posts [] = []"
| "posts (Post url p # tr) = (url, p) # posts tr"
| "posts (_ # tr) = posts tr"

fun fetched :: "event list \<Rightarrow> string list" where
  "fetched [] = []"
| "fetched (Fetch feed data # tr) = feed # fetched tr"
| "fetched (_ # tr) = fetched tr"

fun slept :: "event list \<Rightarrow> nat" where
  "slept [] = 0"
| "slept (Sleep n # tr) = n + slept tr"
| "slept (_ # tr) = slept tr"

section \<open>The functions of the script\<close>

definition fetch :: "world \<Rightarrow> string \<Rightarrow> state \<Rightarrow> FeedParserDict \<times> state" where
  "fetch w feed s =
     (let data = feedparser_parse w (length (trace s)) (AWS_RSS_URL feed)
      in (data, emit (Fetch feed data) s))"

text \<open>\<open>data.entries[0]\<close> raises \<open>IndexError\<close> on an empty list.\<close>

definition last_pub_date :: "FeedParserDict \<Rightarrow> error + datetime" where
  "last_pub_date data =
     (case entries data of
        [] \<Rightarrow> Inl IndexError
      | e0 # _ \<Rightarrow> Inr (published_parsed e0))"

text \<open>
  \<open>send_to_slack\<close> in three parts: the colour it picks from the title of the item,
  the payload dictionary it builds, and the post itself. The response of the
  webhook is not looked at; a \<open>ConnectionError\<close> of \<open>requests.post\<close> is not caught.
\<close>

definition message_color :: "string \<Rightarrow> string" where
  "message_color item_title =
     (if str_in ''Service is operating normally:'' item_title then ''good''
      else if str_in ''Informational message:'' item_title then ''warning''
      else ''danger'')"

definition slack_payload :: "entry \<Rightarrow> string \<Rightarrow> payload" where
  "slack_payload item slack_channel =
     \<lparr>username = ''aws'',
      icon_url = ''https://dl.dropboxusercontent.com/u/62469907/aws-icon.png'',
      channel = slack_channel,
      attachments =
        [\<lparr>color = message_color (title item), att_title = title item,
          title_link = link item, att_text = summary item\<rparr>]\<rparr>"

definition send_to_slack :: "world \<Rightarrow> entry \<Rightarrow> string \<Rightarrow> string \<Rightarrow> state \<Rightarrow> outcome" where
  "send_to_slack w item slack_webhook slack_channel s =
     (let s1 = emit (Post slack_webhook (slack_payload item slack_channel)) s
      in case requests_post w (length (trace s)) of
           Unreachable \<Rightarrow> Inl (ConnectionError, s1)
         | Responded code \<Rightarrow> Inr (emit (Log INFO ''Notification sent to Slack!'' []) s1))"

text \<open>
  One iteration of the first loop of \<open>check_loop\<close> (\<open>for feed in feeds[:]\<close>).
  \<open>data.status\<close> raises \<open>AttributeError\<close> when the parsed feed has no status.
  \<open>feeds.remove(feed)\<close> deletes the first occurrence and raises \<open>ValueError\<close> when
  there is none; the \<open>continue\<close> after it skips the sleep.
\<close>

definition seed_feed :: "world \<Rightarrow> string \<Rightarrow> state \<Rightarrow> outcome" where
  "seed_feed w feed s =
     (let (data, s1) = fetch w feed s in
      case status data of
        None \<Rightarrow> Inl (AttributeError, s1)
      | Some code \<Rightarrow>
          if code \<noteq> 200 then
            (let s2 = emit (Log WARNING ''Ignoring not existent feed: %s''
                              [Str (AWS_RSS_URL feed)]) s1
             in if feed \<in> set (feeds s2)
                then Inr (s2\<lparr>feeds := remove1 feed (feeds s2)\<rparr>)
                else Inl (ValueError, s2))
          else
            (case (if entries data \<noteq> [] then last_pub_date data else Inr (START_TIME w)) of
               Inl e \<Rightarrow> Inl (e, s1)
             | Inr d \<Rightarrow>
                 Inr (emit (Sleep REQUESTS_INTERVAL)
                        (s1\<lparr>last_saved_dates := (last_saved_dates s1)(feed \<mapsto> d)\<rparr>))))"

fun seed_loop :: "world \<Rightarrow> string list \<Rightarrow> state \<Rightarrow> outcome" where
  "seed_loop w [] s = Inr s"
| "seed_loop w (feed # rest) s =
     (case seed_feed w feed s of
        Inl e \<Rightarrow> Inl e
      | Inr s' \<Rightarrow> seed_loop w rest s')"

text \<open>
  The loop that logs the feeds about to be watched; \<open>last_saved_dates[feed]\<close> raises
  \<open>KeyError\<close> on a missing key.
\<close>

fun log_feeds :: "string list \<Rightarrow> state \<Rightarrow> outcome" where
  "log_feeds [] s = Inr s"
| "log_feeds (feed # rest) s =
     (case last_saved_dates s feed of
        None \<Rightarrow> Inl (KeyError, s)
      | Some d \<Rightarrow>
          log_feeds rest
            (emit (Log INFO (CHR 0x09 # ''Feed: %s'' @ CHR 0x09 # ''Last publication: %s'')
                     [Str (AWS_RSS_URL feed), Date d]) s))"

text \<open>One iteration of \<open>for feed in feeds\<close> inside \<open>while True\<close>.\<close>

definition check_feed :: "world \<Rightarrow> string \<Rightarrow> string \<Rightarrow> string \<Rightarrow> state \<Rightarrow> outcome" where
  "check_feed w slack_webhook slack_channel feed s =
     (let (data, s1) = fetch w feed s in
      if entries data = [] then
        Inr (emit (Log DEBUG ''Feed without entries: %s.\<newline>Data: %s.'' [Str feed, Data data]) s1)
      else
        (case last_pub_date data of
           Inl e \<Rightarrow> Inl (e, s1)
         | Inr last_pub \<Rightarrow>
            (case last_saved_dates s1 feed of
               None \<Rightarrow> Inl (KeyError, s1)
             | Some saved \<Rightarrow>
                (let s2 = emit (Log DEBUG ''Feed: %s\<newline>Last saved date: %s\<newline>Last gotten date: %s''
                                  [Str feed, Date saved, Date last_pub]) s1
                 in case (if last_pub > saved then
                            (case entries data of
                               [] \<Rightarrow> Inl (IndexError, s2)
                             | e0 # _ \<Rightarrow>
                                (case send_to_slack w e0 slack_webhook slack_channel s2 of
                                   Inl e \<Rightarrow> Inl e
                                 | Inr s3 \<Rightarrow>
                                     Inr (s3\<lparr>last_saved_dates :=
                                               (last_saved_dates s3)(feed \<mapsto> last_pub)\<rparr>)))
                          else Inr s2) of
                      Inl e \<Rightarrow> Inl e
                    | Inr s4 \<Rightarrow> Inr (emit (Sleep REQUESTS_INTERVAL) s4)))))"

fun for_feeds :: "world \<Rightarrow> string \<Rightarrow> string \<Rightarrow> string list \<Rightarrow> state \<Rightarrow> outcome" where
  "for_feeds w slack_webhook slack_channel [] s = Inr s"
| "for_feeds w slack_webhook slack_channel (feed # rest) s =
     (case check_feed w slack_webhook slack_channel feed s of
        Inl e \<Rightarrow> Inl e
      | Inr s' \<Rightarrow> for_feeds w slack_webhook slack_channel rest s')"

text \<open>
  \<open>while True\<close> never ends by itself. \<open>while_true \<dots> n s\<close> runs its first \<open>n\<close> passes:
  \<open>Inr s'\<close> is the state at the end of the \<open>n\<close>-th pass, the loop still running, and
  \<open>Inl (e, s')\<close> says that exception \<open>e\<close> left the loop before that.
\<close>

fun while_true :: "world \<Rightarrow> string \<Rightarrow> string \<Rightarrow> nat \<Rightarrow> state \<Rightarrow> outcome" where
  "while_true w slack_webhook slack_channel 0 s = Inr s"
| "while_true w slack_webhook slack_channel (Suc n) s =
     (case for_feeds w slack_webhook slack_channel (feeds s)
             (emit (Log DEBUG ''Starting a new check.'' []) s) of
        Inl e \<Rightarrow> Inl e
      | Inr s' \<Rightarrow> while_true w slack_webhook slack_channel n (emit (Sleep CHECKS_INTERVAL) s'))"

text \<open>The state in which \<open>check_loop\<close> starts, and its seeding phase.\<close>

definition init_state :: "string list \<Rightarrow> state" where
  "init_state feeds0 = \<lparr>feeds = feeds0, last_saved_dates = Map.empty, trace = []\<rparr>"

definition check_loop :: "world \<Rightarrow> string list \<Rightarrow> string \<Rightarrow> string \<Rightarrow> nat \<Rightarrow> outcome" where
  "check_loop w feeds0 slack_webhook slack_channel n =
     (case seed_loop w feeds0 (init_state feeds0) of
        Inl e \<Rightarrow> Inl e
      | Inr s1 \<Rightarrow>
          if feeds s1 = [] then
            Inl (SystemExit 1,
                 emit (Log ERROR ''No valid feeds left. TIP: Do not specify feeds to watch %s.''
                         [Str (AWS_RSS_URL ''all'')]) s1)
          else
            (case log_feeds (feeds s1)
                    (emit (Log INFO ''Entering check loop for following feeds:'' []) s1) of
               Inl e \<Rightarrow> Inl e
             | Inr s2 \<Rightarrow> while_true w slack_webhook slack_channel n s2))"


section \<open>Predicates used in the proofs\<close>

text \<open>The exception that ended a run, if any.\<close>

definition raised :: "outcome \<Rightarrow> error option" where
  "raised r = (case r of Inl (e, s) \<Rightarrow> Some e | Inr s \<Rightarrow> None)"

text \<open>
  What the steady-state loop keeps from one of its states to a later one: the list of
  feeds, the keys of \<open>last_saved_dates\<close>, and every stored date or a later one.
\<close>

definition keeps :: "state \<Rightarrow> state \<Rightarrow> bool" where
  "keeps s s' \<longleftrightarrow>
     feeds s' = feeds s \<and>
     dom (last_saved_dates s') = dom (last_saved_dates s) \<and>
     (\<forall>f t. last_saved_dates s f = Some t \<longrightarrow>
        (\<exists>t'. last_saved_dates s' f = Some t' \<and> t \<le> t'))"

text \<open>
  The date the first loop stores for a feed that was found (lines 89 to 92), and the
  warning it logs for one that was not.
\<close>

definition seed_date :: "world \<Rightarrow> FeedParserDict \<Rightarrow> datetime" where
  "seed_date w data = (case entries data of [] \<Rightarrow> START_TIME w | e0 # _ \<Rightarrow> published_parsed e0)"

definition ignoring :: "string \<Rightarrow> event" where
  "ignoring feed = Log WARNING ''Ignoring not existent feed: %s'' [Str (AWS_RSS_URL feed)]"

text \<open>
  The invariant of the first loop, \<open>rest\<close> being the candidates still to come: the
  list \<open>feeds\<close> holds them and, besides, exactly the feeds that have a date; every
  stored date comes from a fetch of that feed that returned 200; every fetch so far came
  back with a status, and left a date if the status was 200, a warning if not.
\<close>

definition seed_inv :: "world \<Rightarrow> string list \<Rightarrow> state \<Rightarrow> bool" where
  "seed_inv w rest s \<longleftrightarrow>
     (\<exists>S. mset (feeds s) = mset rest + S \<and> set_mset S = dom (last_saved_dates s)) \<and>
     (\<forall>f t. last_saved_dates s f = Some t \<longrightarrow>
        (\<exists>d. Fetch f d \<in> set (trace s) \<and> status d = Some 200 \<and> t = seed_date w d)) \<and>
     (\<forall>f d. Fetch f d \<in> set (trace s) \<longrightarrow>
        status d \<noteq> None \<and>
        (if status d = Some 200 then f \<in> dom (last_saved_dates s)
         else ignoring f \<in> set (trace s)))"

section \<open>Scenarios\<close>

text \<open>
  Concrete feeds and environments on which the theorems below are evaluated. In
  \<open>world_of out\<close> the very first fetch returns one item (published at 100) and every
  later one a newer item (published at 200) on top of it, and every post to the
  webhook ends as \<open>out\<close>. \<open>watching\<close> is the state after seeding the feed
  \<open>all\<close> there. In \<open>world_names\<close> the feed \<open>nope\<close> does not exist, \<open>ec2\<close> has one
  item, and every other feed exists and is empty; \<open>watching_two\<close> is a state in
  which the feeds \<open>s3\<close> and \<open>sqs\<close> are watched there, both seeded with \<open>START_TIME\<close>
  (its trace starts afresh). In \<open>world_flaky\<close> the very first fetch returns one item
  and every later one status 404. In \<open>world_offline\<close> the network is down: every fetch
  comes back without a status.
\<close>

definition incident :: entry where
  "incident =
     \<lparr>title = ''Informational message: Increased API Error Rates'',
      link = ''http://status.aws.amazon.com/'',
      summary = ''We are investigating increased API error rates.'',
      published_parsed = 100\<rparr>"

definition resolved :: entry where
  "resolved =
     \<lparr>title = ''Service is operating normally: [RESOLVED] Increased API Error Rates'',
      link = ''http://status.aws.amazon.com/'',
      summary = ''The issue has been resolved.'',
      published_parsed = 200\<rparr>"

definition feed_before :: FeedParserDict where
  "feed_before = \<lparr>status = Some 200, entries = [incident]\<rparr>"

definition feed_after :: FeedParserDict where
  "feed_after = \<lparr>status = Some 200, entries = [resolved, incident]\<rparr>"

definition feed_blank :: FeedParserDict where
  "feed_blank = \<lparr>status = Some 200, entries = []\<rparr>"

definition feed_missing :: FeedParserDict where
  "feed_missing = \<lparr>status = Some 404, entries = []\<rparr>"

definition feed_offline :: FeedParserDict where
  "feed_offline = \<lparr>status = None, entries = []\<rparr>"

definition world_of :: "post_outcome \<Rightarrow> world" where
  "world_of out =
     \<lparr>START_TIME = 50,
      feedparser_parse = (\<lambda>t url. if t = 0 then feed_before else feed_after),
      requests_post = (\<lambda>t. out)\<rparr>"

definition watching :: state where
  "watching =
     \<lparr>feeds = [''all''], last_saved_dates = [''all'' \<mapsto> 100],
      trace = [Fetch ''all'' feed_before, Sleep 2]\<rparr>"

definition watching_two :: state where
  "watching_two =
     \<lparr>feeds = [''s3'', ''sqs''], last_saved_dates = [''s3'' \<mapsto> 50, ''sqs'' \<mapsto> 50],
      trace = []\<rparr>"

definition world_flaky :: world where
  "world_flaky =
     \<lparr>START_TIME = 50,
      feedparser_parse = (\<lambda>t url. if t = 0 then feed_before else feed_missing),
      requests_post = (\<lambda>t. Responded 200)\<rparr>"

definition world_offline :: world where
  "world_offline =
     \<lparr>START_TIME = 50,
      feedparser_parse = (\<lambda>t url. feed_offline),
      requests_post = (\<lambda>t. Responded 200)\<rparr>"

definition world_names :: world where
  "world_names =
     \<lparr>START_TIME = 50,
      feedparser_parse =
        (\<lambda>t url. if url = AWS_RSS_URL ''nope'' then feed_missing
                 else if url = AWS_RSS_URL ''ec2'' then feed_before
                 else feed_blank),
      requests_post = (\<lambda>t. Responded 200)\<rparr>"

section \<open>Basic facts\<close>

lemmas scenario_defs =
  incident_def resolved_def feed_before_def feed_after_def feed_blank_def feed_missing_def
  feed_offline_def world_of_def watching_def watching_two_def world_names_def
  world_flaky_def world_offline_def

lemmas run_defs =
  check_loop_def init_state_def seed_feed_def check_feed_def fetch_def send_to_slack_def
  last_pub_date_def emit_def Let_def state_of_def raised_def AWS_RSS_URL_def
  REQUESTS_INTERVAL_def CHECKS_INTERVAL_def

lemma emit_simps [simp]:
  "feeds (emit e s) = feeds s"
  "last_saved_dates (emit e s) = last_saved_dates s"
  "trace (emit e s) = trace s @ [e]"
  by (simp_all add: emit_def)

lemma posts_append [simp]: "posts (xs @ ys) = posts xs @ posts ys"
  by (induction xs rule: posts.induct) simp_all

lemma fetched_append [simp]: "fetched (xs @ ys) = fetched xs @ fetched ys"
  by (induction xs rule: fetched.induct) simp_all

lemma slept_append [simp]: "slept (xs @ ys) = slept xs + slept ys"
  by (induction xs rule: slept.induct) simp_all

lemma str_in_iff: "str_in sub s \<longleftrightarrow> (\<exists>p q. s = p @ sub @ q)"
proof (induction s)
  case Nil
  then show ?case by auto
next
  case (Cons c cs)
  show ?case
  proof
    assume "str_in sub (c # cs)"
    then consider "prefix sub (c # cs)" | "str_in sub cs" by auto
    then show "\<exists>p q. c # cs = p @ sub @ q"
    proof cases
      case 1
      then obtain q where "c # cs = sub @ q" by (auto simp: prefix_def)
      then have "c # cs = [] @ sub @ q" by simp
      then show ?thesis by blast
    next
      case 2
      with Cons.IH obtain p q where "cs = p @ sub @ q" by blast
      then have "c # cs = (c # p) @ sub @ q" by simp
      then show ?thesis by blast
    qed
  next
    assume "\<exists>p q. c # cs = p @ sub @ q"
    then obtain p q where pq: "c # cs = p @ sub @ q" by blast
    show "str_in sub (c # cs)"
    proof (cases p)
      case Nil
      with pq have "prefix sub (c # cs)" by (simp add: prefix_def)
      then show ?thesis by simp
    next
      case (Cons a p')
      with pq have "cs = p' @ sub @ q" by simp
      with Cons.IH have "str_in sub cs" by blast
      then show ?thesis by simp
    qed
  qed
qed

lemma str_in_sublist: "str_in sub s = sublist sub s"
  by (simp add: str_in_iff sublist_def)

lemma state_of_simps [simp]:
  "state_of (Inl (e, s)) = s"
  "state_of (Inr s) = s"
  by (simp_all add: state_of_def)

lemma fst_fetch [simp]:
  "fst (fetch w feed s) = feedparser_parse w (length (trace s)) (AWS_RSS_URL feed)"
  by (simp add: fetch_def Let_def)

lemma last_pub_date_IndexError: "last_pub_date data = Inl IndexError \<longleftrightarrow> entries data = []"
  by (simp add: last_pub_date_def split: list.splits)

lemma last_pub_date_Cons: "entries data = e0 # es \<Longrightarrow> last_pub_date data = Inr (published_parsed e0)"
  by (simp add: last_pub_date_def)

lemma send_to_slack_Responded:
  assumes "requests_post w (length (trace s)) = Responded code"
  shows "send_to_slack w item hook chan s =
           Inr (s\<lparr>trace := trace s @ [Post hook (slack_payload item chan), Log INFO ''Notification sent to Slack!'' []]\<rparr>)"
  using assms by (simp add: send_to_slack_def Let_def emit_def)

lemma send_to_slack_Unreachable:
  assumes "requests_post w (length (trace s)) = Unreachable"
  shows "send_to_slack w item hook chan s =
           Inl (ConnectionError, s\<lparr>trace := trace s @ [Post hook (slack_payload item chan)]\<rparr>)"
  using assms by (simp add: send_to_slack_def Let_def emit_def)

lemma check_feed_empty:
  assumes "entries (fst (fetch w feed s)) = []"
  shows "check_feed w hook chan feed s =
           Inr (s\<lparr>trace := trace s @
                  [Fetch feed (fst (fetch w feed s)),
                   Log DEBUG ''Feed without entries: %s.\<newline>Data: %s.''
                     [Str feed, Data (fst (fetch w feed s))]]\<rparr>)"
  using assms by (simp add: check_feed_def fetch_def Let_def emit_def)

lemma check_feed_unregistered:
  assumes "entries (fst (fetch w feed s)) \<noteq> []" and "last_saved_dates s feed = None"
  shows "check_feed w hook chan feed s =
           Inl (KeyError, s\<lparr>trace := trace s @ [Fetch feed (fst (fetch w feed s))]\<rparr>)"
  using assms
  by (auto simp add: check_feed_def fetch_def Let_def emit_def last_pub_date_def
      split: list.splits)

lemma check_feed_not_newer:
  assumes "entries (fst (fetch w feed s)) = e0 # es"
    and "last_saved_dates s feed = Some saved"
    and "published_parsed e0 \<le> saved"
  shows "check_feed w hook chan feed s =
           Inr (s\<lparr>trace := trace s @
                  [Fetch feed (fst (fetch w feed s)),
                   Log DEBUG ''Feed: %s\<newline>Last saved date: %s\<newline>Last gotten date: %s''
                     [Str feed, Date saved, Date (published_parsed e0)],
                   Sleep REQUESTS_INTERVAL]\<rparr>)"
  using assms
  by (simp add: check_feed_def fetch_def Let_def emit_def last_pub_date_def)

lemma check_feed_newer_Responded:
  assumes "entries (fst (fetch w feed s)) = e0 # es"
    and "last_saved_dates s feed = Some saved"
    and "saved < published_parsed e0"
    and "requests_post w (length (trace s) + 2) = Responded code"
  shows "check_feed w hook chan feed s =
           Inr (s\<lparr>last_saved_dates := (last_saved_dates s)(feed \<mapsto> published_parsed e0),
                  trace := trace s @
                  [Fetch feed (fst (fetch w feed s)),
                   Log DEBUG ''Feed: %s\<newline>Last saved date: %s\<newline>Last gotten date: %s''
                     [Str feed, Date saved, Date (published_parsed e0)],
                   Post hook (slack_payload e0 chan),
                   Log INFO ''Notification sent to Slack!'' [],
                   Sleep REQUESTS_INTERVAL]\<rparr>)"
  using assms
  by (simp add: check_feed_def fetch_def Let_def emit_def last_pub_date_def send_to_slack_def)

lemma check_feed_newer_Unreachable:
  assumes "entries (fst (fetch w feed s)) = e0 # es"
    and "last_saved_dates s feed = Some saved"
    and "saved < published_parsed e0"
    and "requests_post w (length (trace s) + 2) = Unreachable"
  shows "check_feed w hook chan feed s =
           Inl (ConnectionError, s\<lparr>trace := trace s @
                  [Fetch feed (fst (fetch w feed s)),
                   Log DEBUG ''Feed: %s\<newline>Last saved date: %s\<newline>Last gotten date: %s''
                     [Str feed, Date saved, Date (published_parsed e0)],
                   Post hook (slack_payload e0 chan)]\<rparr>)"
  using assms
  by (simp add: check_feed_def fetch_def Let_def emit_def last_pub_date_def send_to_slack_def)

lemma check_feed_shape:
  "\<exists>tr. fetched tr = [feed] \<and>
     (check_feed w hook chan feed s = Inr (s\<lparr>trace := trace s @ tr\<rparr>) \<or>
      (\<exists>t t'. last_saved_dates s feed = Some t \<and> t < t' \<and>
         check_feed w hook chan feed s =
           Inr (s\<lparr>last_saved_dates := (last_saved_dates s)(feed \<mapsto> t'),
                  trace := trace s @ tr\<rparr>)) \<or>
      (last_saved_dates s feed = None \<and>
         check_feed w hook chan feed s = Inl (KeyError, s\<lparr>trace := trace s @ tr\<rparr>)) \<or>
      (last_saved_dates s feed \<noteq> None \<and>
         requests_post w (length (trace s) + 2) = Unreachable \<and>
         check_feed w hook chan feed s = Inl (ConnectionError, s\<lparr>trace := trace s @ tr\<rparr>)))"
proof (cases "entries (fst (fetch w feed s))")
  case Nil
  from check_feed_empty [OF Nil, of hook chan] show ?thesis
    by (intro exI [of _ "[Fetch feed (fst (fetch w feed s)),
                   Log DEBUG ''Feed without entries: %s.\<newline>Data: %s.''
                     [Str feed, Data (fst (fetch w feed s))]]"]) simp
next
  case (Cons e0 es)
  show ?thesis
  proof (cases "last_saved_dates s feed")
    case None
    from Cons have "entries (fst (fetch w feed s)) \<noteq> []" by simp
    from check_feed_unregistered [OF this None, of hook chan] None show ?thesis
      by (intro exI [of _ "[Fetch feed (fst (fetch w feed s))]"]) simp
  next
    case (Some saved)
    show ?thesis
    proof (cases "published_parsed e0 \<le> saved")
      case True
      from check_feed_not_newer [OF Cons Some True, of hook chan] show ?thesis
        by (intro exI [of _ "[Fetch feed (fst (fetch w feed s)),
                   Log DEBUG ''Feed: %s\<newline>Last saved date: %s\<newline>Last gotten date: %s''
                     [Str feed, Date saved, Date (published_parsed e0)],
                   Sleep REQUESTS_INTERVAL]"]) simp
    next
      case False
      then have newer: "saved < published_parsed e0" by simp
      show ?thesis
      proof (cases "requests_post w (length (trace s) + 2)")
        case (Responded code)
        from check_feed_newer_Responded [OF Cons Some newer Responded, of hook chan] Some newer
        show ?thesis
          by (intro exI [of _ "[Fetch feed (fst (fetch w feed s)),
                   Log DEBUG ''Feed: %s\<newline>Last saved date: %s\<newline>Last gotten date: %s''
                     [Str feed, Date saved, Date (published_parsed e0)],
                   Post hook (slack_payload e0 chan),
                   Log INFO ''Notification sent to Slack!'' [],
                   Sleep REQUESTS_INTERVAL]"]) auto
      next
        case Unreachable
        from check_feed_newer_Unreachable [OF Cons Some newer Unreachable, of hook chan] Some
          Unreachable
        show ?thesis
          by (intro exI [of _ "[Fetch feed (fst (fetch w feed s)),
                   Log DEBUG ''Feed: %s\<newline>Last saved date: %s\<newline>Last gotten date: %s''
                     [Str feed, Date saved, Date (published_parsed e0)],
                   Post hook (slack_payload e0 chan)]"]) auto
      qed
    qed
  qed
qed

lemma keeps_refl: "keeps s s"
  by (simp add: keeps_def)

lemma keeps_trans: "keeps s s' \<Longrightarrow> keeps s' s'' \<Longrightarrow> keeps s s''"
  unfolding keeps_def by (metis order_trans)

lemma keeps_emit: "keeps s (emit e s)"
  by (simp add: keeps_def)

lemma check_feed_keeps: "keeps s (state_of (check_feed w hook chan feed s))"
  using check_feed_shape [of feed w hook chan s]
  by (auto simp: keeps_def split: if_splits)

lemma for_feeds_keeps: "keeps s (state_of (for_feeds w hook chan fs s))"
proof (induction fs arbitrary: s)
  case Nil
  show ?case by (simp add: keeps_refl)
next
  case (Cons feed fs)
  show ?case
  proof (cases "check_feed w hook chan feed s")
    case (Inl a)
    then show ?thesis
      using check_feed_keeps [of s w hook chan feed] by simp
  next
    case (Inr s')
    then have "keeps s s'"
      using check_feed_keeps [of s w hook chan feed] by simp
    from keeps_trans [OF this Cons.IH [of s']] Inr show ?thesis by simp
  qed
qed

lemma while_true_keeps: "keeps s (state_of (while_true w hook chan n s))"
proof (induction n arbitrary: s)
  case 0
  show ?case by (simp add: keeps_refl)
next
  case (Suc n)
  let ?s0 = "emit (Log DEBUG ''Starting a new check.'' []) s"
  let ?r = "for_feeds w hook chan (feeds s) ?s0"
  have k1: "keeps s (state_of ?r)"
    using keeps_trans [OF keeps_emit for_feeds_keeps] .
  show ?case
  proof (cases ?r)
    case (Inl a)
    with k1 show ?thesis by simp
  next
    case (Inr s')
    with k1 have "keeps s (emit (Sleep CHECKS_INTERVAL) s')"
      using keeps_trans [OF _ keeps_emit] by simp
    from keeps_trans [OF this Suc.IH] Inr show ?thesis by simp
  qed
qed

lemma check_feed_trace:
  "\<exists>tr. trace (state_of (check_feed w hook chan feed s)) = trace s @ tr \<and> fetched tr = [feed]"
  using check_feed_shape [of feed w hook chan s] by auto

lemma for_feeds_trace:
  "\<exists>tr. trace (state_of (for_feeds w hook chan fs s)) = trace s @ tr \<and>
        set (fetched tr) \<subseteq> set fs"
proof (induction fs arbitrary: s)
  case Nil
  show ?case by simp
next
  case (Cons feed fs)
  from check_feed_trace [of w hook chan feed s] obtain tr1 where
    tr1: "trace (state_of (check_feed w hook chan feed s)) = trace s @ tr1" "fetched tr1 = [feed]"
    by blast
  show ?case
  proof (cases "check_feed w hook chan feed s")
    case (Inl a)
    with tr1 show ?thesis by (cases a) auto
  next
    case (Inr s')
    from Cons.IH [of s'] obtain tr2 where
      tr2: "trace (state_of (for_feeds w hook chan fs s')) = trace s' @ tr2"
        "set (fetched tr2) \<subseteq> set fs" by blast
    from Inr tr1 tr2 have
      "trace (state_of (for_feeds w hook chan (feed # fs) s)) = trace s @ (tr1 @ tr2)"
      by simp
    moreover from tr1 tr2 have "set (fetched (tr1 @ tr2)) \<subseteq> set (feed # fs)" by auto
    ultimately show ?thesis by blast
  qed
qed

lemma while_true_trace:
  "\<exists>tr. trace (state_of (while_true w hook chan n s)) = trace s @ tr \<and>
        set (fetched tr) \<subseteq> set (feeds s)"
proof (induction n arbitrary: s)
  case 0
  show ?case by simp
next
  case (Suc n)
  let ?s0 = "emit (Log DEBUG ''Starting a new check.'' []) s"
  let ?r = "for_feeds w hook chan (feeds s) ?s0"
  from for_feeds_trace [of w hook chan "feeds s" ?s0] obtain tr1 where
    tr1: "trace (state_of ?r) = trace ?s0 @ tr1" "set (fetched tr1) \<subseteq> set (feeds s)"
    by blast
  show ?case
  proof (cases ?r)
    case (Inl a)
    with tr1 have "trace (state_of (while_true w hook chan (Suc n) s)) =
        trace s @ (Log DEBUG ''Starting a new check.'' [] # tr1)"
      by (cases a) simp
    moreover from tr1 have
      "set (fetched (Log DEBUG ''Starting a new check.'' [] # tr1)) \<subseteq> set (feeds s)"
      by simp
    ultimately show ?thesis by blast
  next
    case (Inr s')
    have "keeps ?s0 (state_of ?r)" by (rule for_feeds_keeps)
    with Inr have fs: "feeds s' = feeds s" by (simp add: keeps_def)
    from Suc.IH [of "emit (Sleep CHECKS_INTERVAL) s'"] fs obtain tr2 where
      tr2: "trace (state_of (while_true w hook chan n (emit (Sleep CHECKS_INTERVAL) s'))) =
          trace (emit (Sleep CHECKS_INTERVAL) s') @ tr2"
        "set (fetched tr2) \<subseteq> set (feeds s)" by auto
    from Inr tr1 tr2 have "trace (state_of (while_true w hook chan (Suc n) s)) =
        trace s @ (Log DEBUG ''Starting a new check.'' [] # tr1 @ Sleep CHECKS_INTERVAL # tr2)"
      by simp
    moreover from tr1 tr2 have
      "set (fetched (Log DEBUG ''Starting a new check.'' [] # tr1 @ Sleep CHECKS_INTERVAL # tr2))
         \<subseteq> set (feeds s)"
      by simp
    ultimately show ?thesis by blast
  qed
qed

lemma check_feed_raises:
  assumes "check_feed w hook chan feed s = Inl (e, s')"
  shows "e = KeyError \<and> last_saved_dates s feed = None \<or>
         e = ConnectionError \<and> (\<exists>t. requests_post w t = Unreachable)"
  using check_feed_shape [of feed w hook chan s] assms by auto

lemma for_feeds_raises:
  assumes "for_feeds w hook chan fs s = Inl (e, s')"
    and "set fs \<subseteq> dom (last_saved_dates s)"
  shows "e = ConnectionError \<and> (\<exists>t. requests_post w t = Unreachable)"
  using assms
proof (induction fs arbitrary: s)
  case Nil
  then show ?case by simp
next
  case (Cons feed fs)
  show ?case
  proof (cases "check_feed w hook chan feed s")
    case (Inl a)
    with Cons.prems(1) have "check_feed w hook chan feed s = Inl (e, s')" by simp
    from check_feed_raises [OF this] Cons.prems(2) show ?thesis by auto
  next
    case (Inr s1)
    with check_feed_keeps [of s w hook chan feed] have "keeps s s1" by simp
    with Cons.prems(2) have "set fs \<subseteq> dom (last_saved_dates s1)"
      by (simp add: keeps_def)
    moreover from Inr Cons.prems(1) have "for_feeds w hook chan fs s1 = Inl (e, s')" by simp
    ultimately show ?thesis by (rule Cons.IH [rotated])
  qed
qed

lemma while_true_raises:
  assumes "while_true w hook chan n s = Inl (e, s')"
    and "set (feeds s) \<subseteq> dom (last_saved_dates s)"
  shows "e = ConnectionError \<and> (\<exists>t. requests_post w t = Unreachable)"
  using assms
proof (induction n arbitrary: s)
  case 0
  then show ?case by simp
next
  case (Suc n)
  let ?s0 = "emit (Log DEBUG ''Starting a new check.'' []) s"
  let ?r = "for_feeds w hook chan (feeds s) ?s0"
  show ?case
  proof (cases ?r)
    case (Inl a)
    with Suc.prems(1) have "?r = Inl (e, s')" by simp
    from for_feeds_raises [OF this] Suc.prems(2) show ?thesis by simp
  next
    case (Inr s1)
    have "keeps ?s0 (state_of ?r)" by (rule for_feeds_keeps)
    with Inr Suc.prems(2) have
      "set (feeds (emit (Sleep CHECKS_INTERVAL) s1)) \<subseteq>
         dom (last_saved_dates (emit (Sleep CHECKS_INTERVAL) s1))"
      by (simp add: keeps_def)
    moreover from Inr Suc.prems(1) have
      "while_true w hook chan n (emit (Sleep CHECKS_INTERVAL) s1) = Inl (e, s')" by simp
    ultimately show ?thesis by (rule Suc.IH [rotated])
  qed
qed

lemma log_feeds_ok:
  assumes "set fs \<subseteq> dom (last_saved_dates s)"
  shows "\<exists>tr. log_feeds fs s = Inr (s\<lparr>trace := trace s @ tr\<rparr>) \<and> fetched tr = []"
  using assms
proof (induction fs arbitrary: s)
  case Nil
  show ?case by (intro exI [of _ "[]"]) simp
next
  case (Cons feed fs)
  then obtain d where d: "last_saved_dates s feed = Some d" by auto
  let ?e = "Log INFO (CHR 0x09 # ''Feed: %s'' @ CHR 0x09 # ''Last publication: %s'')
                     [Str (AWS_RSS_URL feed), Date d]"
  from Cons.prems have "set fs \<subseteq> dom (last_saved_dates (emit ?e s))" by simp
  from Cons.IH [OF this] obtain tr where
    "log_feeds fs (emit ?e s) = Inr (emit ?e s\<lparr>trace := trace (emit ?e s) @ tr\<rparr>)"
    "fetched tr = []" by blast
  with d show ?case
    by (intro exI [of _ "?e # tr"]) (simp add: emit_def)
qed

lemma ignoring_not_Fetch [simp]: "Fetch f d \<noteq> ignoring g" "ignoring g \<noteq> Fetch f d"
  by (simp_all add: ignoring_def)

lemma seed_feed_no_status:
  assumes "status (fst (fetch w feed s)) = None"
  shows "seed_feed w feed s =
           Inl (AttributeError, s\<lparr>trace := trace s @ [Fetch feed (fst (fetch w feed s))]\<rparr>)"
  using assms by (simp add: seed_feed_def fetch_def Let_def emit_def)

lemma seed_feed_not_200:
  assumes "status (fst (fetch w feed s)) = Some code" and "code \<noteq> 200"
    and "feed \<in> set (feeds s)"
  shows "seed_feed w feed s =
           Inr (s\<lparr>feeds := remove1 feed (feeds s),
                  trace := trace s @ [Fetch feed (fst (fetch w feed s)), ignoring feed]\<rparr>)"
  using assms by (simp add: seed_feed_def fetch_def Let_def emit_def ignoring_def)

lemma seed_feed_200:
  assumes "status (fst (fetch w feed s)) = Some 200"
  shows "seed_feed w feed s =
           Inr (s\<lparr>last_saved_dates :=
                    (last_saved_dates s)(feed \<mapsto> seed_date w (fst (fetch w feed s))),
                  trace := trace s @ [Fetch feed (fst (fetch w feed s)), Sleep REQUESTS_INTERVAL]\<rparr>)"
  using assms
  by (simp add: seed_feed_def fetch_def Let_def emit_def seed_date_def last_pub_date_def
      split: list.splits)

lemma seed_inv_init: "seed_inv w cs (init_state cs)"
  by (simp add: seed_inv_def init_state_def)

lemma seed_inv_head: "seed_inv w (feed # rest) s \<Longrightarrow> feed \<in> set (feeds s)"
  unfolding seed_inv_def by (metis mset.simps(2) set_mset_mset union_iff union_single_eq_member)

lemma seed_feed_inv:
  assumes inv: "seed_inv w (feed # rest) s"
  shows "status (fst (fetch w feed s)) = None \<and>
           seed_feed w feed s =
             Inl (AttributeError, s\<lparr>trace := trace s @ [Fetch feed (fst (fetch w feed s))]\<rparr>) \<or>
         (\<exists>s'. seed_feed w feed s = Inr s' \<and> seed_inv w rest s' \<and>
            fetched (trace s') = fetched (trace s) @ [feed])"
proof (cases "status (fst (fetch w feed s))")
  case None
  from seed_feed_no_status [OF None] None show ?thesis by blast
next
  case (Some code)
  let ?d = "fst (fetch w feed s)"
  from inv obtain S where S: "mset (feeds s) = mset (feed # rest) + S"
    "set_mset S = dom (last_saved_dates s)" unfolding seed_inv_def by blast
  show ?thesis
  proof (cases "code = 200")
    case True
    with Some have ok: "status ?d = Some 200" by simp
    let ?s' = "s\<lparr>last_saved_dates := (last_saved_dates s)(feed \<mapsto> seed_date w ?d),
                    trace := trace s @ [Fetch feed ?d, Sleep REQUESTS_INTERVAL]\<rparr>"
    have a: "\<exists>S'. mset (feeds ?s') = mset rest + S' \<and> set_mset S' = dom (last_saved_dates ?s')"
      using S by (intro exI [of _ "add_mset feed S"]) simp
    have b: "\<forall>f t. last_saved_dates ?s' f = Some t \<longrightarrow>
          (\<exists>d. Fetch f d \<in> set (trace ?s') \<and> status d = Some 200 \<and> t = seed_date w d)"
      using inv ok unfolding seed_inv_def by (auto split: if_splits)
    have c: "\<forall>f d. Fetch f d \<in> set (trace ?s') \<longrightarrow>
          status d \<noteq> None \<and>
          (if status d = Some 200 then f \<in> dom (last_saved_dates ?s')
           else ignoring f \<in> set (trace ?s'))"
      using inv ok unfolding seed_inv_def by (auto split: if_splits)
    from a b c have "seed_inv w rest ?s'" unfolding seed_inv_def by blast
    with seed_feed_200 [OF ok] show ?thesis by simp
  next
    case False
    let ?s' = "s\<lparr>feeds := remove1 feed (feeds s),
                    trace := trace s @ [Fetch feed ?d, ignoring feed]\<rparr>"
    have a: "\<exists>S'. mset (feeds ?s') = mset rest + S' \<and> set_mset S' = dom (last_saved_dates ?s')"
      using S by (intro exI [of _ S]) simp
    have b: "\<forall>f t. last_saved_dates ?s' f = Some t \<longrightarrow>
          (\<exists>d. Fetch f d \<in> set (trace ?s') \<and> status d = Some 200 \<and> t = seed_date w d)"
      using inv unfolding seed_inv_def by auto
    have c: "\<forall>f d. Fetch f d \<in> set (trace ?s') \<longrightarrow>
          status d \<noteq> None \<and>
          (if status d = Some 200 then f \<in> dom (last_saved_dates ?s')
           else ignoring f \<in> set (trace ?s'))"
      using inv Some False unfolding seed_inv_def by (auto split: if_splits)
    from a b c have "seed_inv w rest ?s'" unfolding seed_inv_def by blast
    with seed_feed_not_200 [OF Some False seed_inv_head [OF inv]] show ?thesis
      by (simp add: ignoring_def)
  qed
qed

lemma seed_loop_inv:
  assumes "seed_inv w cs s"
  shows "case seed_loop w cs s of
           Inr s1 \<Rightarrow> seed_inv w [] s1 \<and> fetched (trace s1) = fetched (trace s) @ cs
         | Inl (e, s0) \<Rightarrow>
             e = AttributeError \<and>
             (\<exists>pre f d. trace s0 = pre @ [Fetch f d] \<and> status d = None) \<and>
             prefix (fetched (trace s0)) (fetched (trace s) @ cs)"
  using assms
proof (induction cs arbitrary: s)
  case Nil
  then show ?case by simp
next
  case (Cons feed rest)
  from seed_feed_inv [OF Cons.prems] show ?case
  proof
    assume "status (fst (fetch w feed s)) = None \<and>
      seed_feed w feed s =
        Inl (AttributeError, s\<lparr>trace := trace s @ [Fetch feed (fst (fetch w feed s))]\<rparr>)"
    then show ?thesis by auto
  next
    assume "\<exists>s'. seed_feed w feed s = Inr s' \<and> seed_inv w rest s' \<and>
      fetched (trace s') = fetched (trace s) @ [feed]"
    then obtain s' where
      s': "seed_feed w feed s = Inr s'" "seed_inv w rest s'"
        "fetched (trace s') = fetched (trace s) @ [feed]" by blast
    from Cons.IH [OF s'(2)] s'(1,3) show ?thesis by (auto split: sum.splits)
  qed
qed

lemma fetched_mem: "f \<in> set (fetched tr) \<longleftrightarrow> (\<exists>d. Fetch f d \<in> set tr)"
  by (induction tr rule: fetched.induct) auto

lemma seeding:
  "case seed_loop w cs (init_state cs) of
     Inr s1 \<Rightarrow> seed_inv w [] s1 \<and> fetched (trace s1) = cs
   | Inl (e, s0) \<Rightarrow>
       e = AttributeError \<and>
       (\<exists>pre f d. trace s0 = pre @ [Fetch f d] \<and> status d = None) \<and>
       prefix (fetched (trace s0)) cs"
  using seed_loop_inv [OF seed_inv_init, where w = w and cs = cs]
  by (auto simp: init_state_def split: sum.splits)

lemma seeding_Inr:
  assumes "seed_loop w cs (init_state cs) = Inr s1"
  shows "seed_inv w [] s1" and "fetched (trace s1) = cs"
  using seeding [where w = w and cs = cs] assms by simp_all

lemma seeding_Inl:
  assumes "seed_loop w cs (init_state cs) = Inl (e, s0)"
  shows "e = AttributeError" and "\<exists>pre f d. trace s0 = pre @ [Fetch f d] \<and> status d = None"
    and "prefix (fetched (trace s0)) cs"
  using seeding [where w = w and cs = cs] assms by simp_all

lemma seed_inv_end:
  assumes "seed_inv w [] s1"
  shows "set (feeds s1) = dom (last_saved_dates s1)"
  using assms unfolding seed_inv_def by (metis add_0 mset.simps(1) set_mset_mset)

lemma AWS_RSS_URL_inj [simp]: "AWS_RSS_URL a = AWS_RSS_URL b \<longleftrightarrow> a = b"
  by (simp add: AWS_RSS_URL_def)

lemma seed_feed_raises:
  assumes "seed_feed w feed s = Inl (e, s')"
  shows "e = ValueError \<and> feed \<notin> set (feeds s) \<or>
         e = AttributeError \<and> status (fst (fetch w feed s)) = None"
proof (cases "status (fst (fetch w feed s))")
  case None
  from seed_feed_no_status [OF None] assms None show ?thesis by simp
next
  case (Some code)
  show ?thesis
  proof (cases "code = 200")
    case True
    with Some have "status (fst (fetch w feed s)) = Some 200" by simp
    from seed_feed_200 [OF this] assms show ?thesis by simp
  next
    case False
    show ?thesis
    proof (cases "feed \<in> set (feeds s)")
      case True
      from seed_feed_not_200 [OF Some False True] assms show ?thesis by simp
    next
      case nomem: False
      with Some False assms show ?thesis
        by (simp add: seed_feed_def fetch_def Let_def)
    qed
  qed
qed

lemma check_loop_no_seed:
  assumes "seed_loop w cs (init_state cs) = Inl x"
  shows "check_loop w cs hook chan n = Inl x"
  using assms by (simp add: check_loop_def)

lemma check_loop_cases:
  assumes "seed_loop w cs (init_state cs) = Inr s1"
  shows "if feeds s1 = [] then
        check_loop w cs hook chan n =
          Inl (SystemExit 1,
               s1\<lparr>trace := trace s1 @
                 [Log ERROR ''No valid feeds left. TIP: Do not specify feeds to watch %s.''
                    [Str (AWS_RSS_URL ''all'')]]\<rparr>)
      else
        (\<exists>tr. fetched tr = [] \<and>
           check_loop w cs hook chan n =
             while_true w hook chan n (s1\<lparr>trace := trace s1 @ tr\<rparr>))"
proof (cases "feeds s1 = []")
  case True
  with assms show ?thesis by (simp add: check_loop_def emit_def)
next
  case False
  let ?s = "emit (Log INFO ''Entering check loop for following feeds:'' []) s1"
  from seed_inv_end [OF seeding_Inr(1) [OF assms]]
  have "set (feeds s1) \<subseteq> dom (last_saved_dates ?s)" by simp
  from log_feeds_ok [OF this] obtain tr where
    tr: "log_feeds (feeds s1) ?s = Inr (?s\<lparr>trace := trace ?s @ tr\<rparr>)" "fetched tr = []"
    by blast
  have "\<exists>tr'. fetched tr' = [] \<and>
      check_loop w cs hook chan n = while_true w hook chan n (s1\<lparr>trace := trace s1 @ tr'\<rparr>)"
    using assms False tr
    by (intro exI [of _ "Log INFO ''Entering check loop for following feeds:'' [] # tr"])
      (simp add: check_loop_def emit_def)
  with False show ?thesis by simp
qed

lemma check_loop_raises:
  assumes "check_loop w cs hook chan n = Inl (e, s')"
  shows "(\<exists>s1. seed_loop w cs (init_state cs) = Inr s1 \<and>
           (e = SystemExit 1 \<and> feeds s1 = [] \<or>
            e = ConnectionError \<and> feeds s1 \<noteq> [] \<and> (\<exists>t. requests_post w t = Unreachable))) \<or>
         e = AttributeError \<and> seed_loop w cs (init_state cs) = Inl (AttributeError, s')"
proof (cases "seed_loop w cs (init_state cs)")
  case (Inl x)
  from check_loop_no_seed [OF Inl, of hook chan n] assms have x: "x = (e, s')" by simp
  with Inl seeding_Inl(1) [of w cs e s'] show ?thesis by simp
next
  case (Inr s1)
  note c = check_loop_cases [OF Inr, of hook chan n]
  show ?thesis
  proof (cases "feeds s1 = []")
    case True
    with c assms Inr show ?thesis by simp
  next
    case False
    with c obtain tr where
      "check_loop w cs hook chan n = while_true w hook chan n (s1\<lparr>trace := trace s1 @ tr\<rparr>)"
      by auto
    with assms have
      "while_true w hook chan n (s1\<lparr>trace := trace s1 @ tr\<rparr>) = Inl (e, s')" by simp
    from while_true_raises [OF this] seed_inv_end [OF seeding_Inr(1) [OF Inr]] False Inr
    show ?thesis by simp
  qed
qed

lemma check_loop_keeps:
  assumes "seed_loop w cs (init_state cs) = Inr s1"
  shows "keeps s1 (state_of (check_loop w cs hook chan n))"
proof -
  note c = check_loop_cases [OF assms, of hook chan n]
  show ?thesis
  proof (cases "feeds s1 = []")
    case True
    with c show ?thesis by (simp add: keeps_def)
  next
    case False
    with c obtain tr where
      eq: "check_loop w cs hook chan n = while_true w hook chan n (s1\<lparr>trace := trace s1 @ tr\<rparr>)"
      by auto
    have "keeps s1 (s1\<lparr>trace := trace s1 @ tr\<rparr>)" by (simp add: keeps_def)
    from keeps_trans [OF this while_true_keeps] eq show ?thesis by simp
  qed
qed

lemma check_loop_trace:
  assumes "seed_loop w cs (init_state cs) = Inr s1"
  shows "\<exists>tr. trace (state_of (check_loop w cs hook chan n)) = trace s1 @ tr \<and>
           set (fetched tr) \<subseteq> set (feeds s1)"
proof -
  note c = check_loop_cases [OF assms, of hook chan n]
  show ?thesis
  proof (cases "feeds s1 = []")
    case True
    with c show ?thesis by simp
  next
    case False
    with c obtain tr where tr: "fetched tr = []"
      "check_loop w cs hook chan n = while_true w hook chan n (s1\<lparr>trace := trace s1 @ tr\<rparr>)"
      by auto
    from while_true_trace [of w hook chan n "s1\<lparr>trace := trace s1 @ tr\<rparr>"] obtain tr2 where
      "trace (state_of (while_true w hook chan n (s1\<lparr>trace := trace s1 @ tr\<rparr>))) =
         trace s1 @ tr @ tr2" "set (fetched tr2) \<subseteq> set (feeds s1)" by auto
    with tr have "trace (state_of (check_loop w cs hook chan n)) = trace s1 @ (tr @ tr2)"
      "set (fetched (tr @ tr2)) \<subseteq> set (feeds s1)" by simp_all
    then show ?thesis by blast
  qed
qed

lemma fetched_once:
  assumes "count_list (fetched tr) f = 1" and "Fetch f d \<in> set tr" and "Fetch f d' \<in> set tr"
  shows "d = d'"
  using assms
proof (induction tr rule: fetched.induct)
  case 1
  then show ?case by simp
next
  case (2 feed data tr)
  show ?case
  proof (cases "feed = f")
    case True
    with "2.prems"(1) have "count_list (fetched tr) f = 0" by simp
    then have "f \<notin> set (fetched tr)" by (simp add: count_list_0_iff)
    then have "\<And>x. Fetch f x \<notin> set tr" by (simp add: fetched_mem)
    with "2.prems"(2,3) show ?thesis by auto
  next
    case False
    with "2.prems" "2.IH" show ?thesis by simp
  qed
qed simp_all

text \<open>Passes of the loop compose: a longer run continues a shorter one.\<close>

lemma while_true_add:
  "while_true w hook chan (m + k) s =
     (case while_true w hook chan m s of
        Inl e \<Rightarrow> Inl e
      | Inr s' \<Rightarrow> while_true w hook chan k s')"
proof (induction m arbitrary: s)
  case 0
  show ?case by simp
next
  case (Suc m)
  show ?case
    by (cases "for_feeds w hook chan (feeds s) (emit (Log DEBUG ''Starting a new check.'' []) s)")
      (simp_all add: Suc.IH)
qed

lemma check_loop_add:
  "check_loop w cs hook chan (m + k) =
     (case check_loop w cs hook chan m of
        Inl e \<Rightarrow> Inl e
      | Inr s' \<Rightarrow> while_true w hook chan k s')"
  by (simp add: check_loop_def while_true_add split: sum.splits)

lemma check_loop_later_keeps:
  assumes "m \<le> n"
  shows "keeps (state_of (check_loop w cs hook chan m)) (state_of (check_loop w cs hook chan n))"
proof -
  from assms obtain k where n: "n = m + k" by (auto simp: le_iff_add)
  show ?thesis
  proof (cases "check_loop w cs hook chan m")
    case (Inl a)
    then show ?thesis by (simp add: n check_loop_add keeps_refl)
  next
    case (Inr s')
    then show ?thesis by (simp add: n check_loop_add while_true_keeps)
  qed
qed

section \<open>The claims\<close>

text \<open>
  Claim C1, as amended. For a registered feed whose fetched snapshot has entries, the
  newest entry's date is compared with the stored one by strict \<open>>\<close>. When it is equal
  or earlier, the iteration ends normally with \<open>last_saved_dates\<close> unchanged and nothing
  posted. When it is strictly later, exactly one post is made to the webhook, with the
  payload of the newest entry; if that post returns a response (of any status) the
  iteration ends normally and the stored date has become the newest entry's date; if it
  raises \<open>ConnectionError\<close>, the exception leaves the iteration and the stored date is
  unchanged.
\<close>

theorem check_feed_strictly_newer:
  assumes "entries (fst (fetch w feed s)) = e0 # es"
    and "last_saved_dates s feed = Some saved"
  shows "(published_parsed e0 \<le> saved \<longrightarrow>
            (\<exists>s'. check_feed w hook chan feed s = Inr s' \<and>
               last_saved_dates s' = last_saved_dates s \<and>
               posts (trace s') = posts (trace s))) \<and>
         (saved < published_parsed e0 \<longrightarrow>
            posts (trace (state_of (check_feed w hook chan feed s))) =
              posts (trace s) @ [(hook, slack_payload e0 chan)] \<and>
            (case requests_post w (length (trace s) + 2) of
               Responded code \<Rightarrow>
                 \<exists>s'. check_feed w hook chan feed s = Inr s' \<and>
                   last_saved_dates s' = (last_saved_dates s)(feed \<mapsto> published_parsed e0)
             | Unreachable \<Rightarrow>
                 \<exists>s'. check_feed w hook chan feed s = Inl (ConnectionError, s') \<and>
                   last_saved_dates s' = last_saved_dates s))"
proof (intro conjI impI)
  assume "published_parsed e0 \<le> saved"
  from check_feed_not_newer [OF assms this, of hook chan]
  show "\<exists>s'. check_feed w hook chan feed s = Inr s' \<and>
      last_saved_dates s' = last_saved_dates s \<and> posts (trace s') = posts (trace s)"
    by simp
next
  assume newer: "saved < published_parsed e0"
  show "posts (trace (state_of (check_feed w hook chan feed s))) =
      posts (trace s) @ [(hook, slack_payload e0 chan)]"
  proof (cases "requests_post w (length (trace s) + 2)")
    case (Responded code)
    from check_feed_newer_Responded [OF assms newer this, of hook chan] show ?thesis by simp
  next
    case Unreachable
    from check_feed_newer_Unreachable [OF assms newer this, of hook chan] show ?thesis by simp
  qed
  show "case requests_post w (length (trace s) + 2) of
      Responded code \<Rightarrow>
        \<exists>s'. check_feed w hook chan feed s = Inr s' \<and>
          last_saved_dates s' = (last_saved_dates s)(feed \<mapsto> published_parsed e0)
    | Unreachable \<Rightarrow>
        \<exists>s'. check_feed w hook chan feed s = Inl (ConnectionError, s') \<and>
          last_saved_dates s' = last_saved_dates s"
  proof (cases "requests_post w (length (trace s) + 2)")
    case (Responded code)
    from check_feed_newer_Responded [OF assms newer this, of hook chan] Responded
    show ?thesis by simp
  next
    case Unreachable
    from check_feed_newer_Unreachable [OF assms newer this, of hook chan] Unreachable
    show ?thesis by simp
  qed
qed

text \<open>
  The feed \<open>all\<close>, seen at 100, shows an item published at 200 and the webhook
  answers; and the same feed shows the item of 100 again.
\<close>

theorem check_feed_strictly_newer_witness:
  "entries (fst (fetch (world_of (Responded 200)) ''all'' watching)) = [resolved, incident] \<and>
   last_saved_dates watching ''all'' = Some 100 \<and>
   100 < published_parsed resolved \<and>
   posts (trace (state_of (check_feed (world_of (Responded 200)) ''hook'' ''#aws'' ''all'' watching))) =
     [(''hook'', slack_payload resolved ''#aws'')] \<and>
   (\<exists>s'. check_feed (world_of (Responded 200)) ''hook'' ''#aws'' ''all'' watching = Inr s' \<and>
      last_saved_dates s' = [''all'' \<mapsto> 200]) \<and>
   entries (fst (fetch (world_of (Responded 200)) ''all'' (watching\<lparr>trace := []\<rparr>))) = [incident] \<and>
   published_parsed incident \<le> 100 \<and>
   (\<exists>s'. check_feed (world_of (Responded 200)) ''hook'' ''#aws'' ''all'' (watching\<lparr>trace := []\<rparr>) =
      Inr s' \<and> last_saved_dates s' = [''all'' \<mapsto> 100] \<and> posts (trace s') = [])"
proof -
  have h1: "entries (fst (fetch (world_of (Responded 200)) ''all'' watching)) = resolved # [incident]"
    by (simp add: scenario_defs)
  have h2: "last_saved_dates watching ''all'' = Some 100"
    by (simp add: watching_def)
  have h3: "(100::int) < published_parsed resolved"
    by (simp add: resolved_def)
  have e: "requests_post (world_of (Responded 200)) (length (trace watching) + 2) = Responded 200"
    "posts (trace watching) = []" "last_saved_dates watching = [''all'' \<mapsto> 100]"
    "published_parsed resolved = 200"
    by (simp_all add: world_of_def watching_def resolved_def)
  from check_feed_strictly_newer [OF h1 h2, of "''hook''" "''#aws''"] h3 e
  have newer: "posts (trace (state_of (check_feed (world_of (Responded 200)) ''hook'' ''#aws'' ''all'' watching))) =
     [(''hook'', slack_payload resolved ''#aws'')] \<and>
   (\<exists>s'. check_feed (world_of (Responded 200)) ''hook'' ''#aws'' ''all'' watching = Inr s' \<and>
      last_saved_dates s' = [''all'' \<mapsto> 200])"
    by simp
  have g1: "entries (fst (fetch (world_of (Responded 200)) ''all'' (watching\<lparr>trace := []\<rparr>))) =
      incident # []"
    by (simp add: scenario_defs)
  have g2: "last_saved_dates (watching\<lparr>trace := []\<rparr>) ''all'' = Some 100"
    by (simp add: watching_def)
  have g3: "published_parsed incident \<le> 100"
    by (simp add: incident_def)
  have f: "posts (trace (watching\<lparr>trace := []\<rparr>)) = []"
    "last_saved_dates (watching\<lparr>trace := []\<rparr>) = [''all'' \<mapsto> 100]"
    by (simp_all add: watching_def)
  from check_feed_strictly_newer [OF g1 g2, of "''hook''" "''#aws''"] g3 f
  have older: "\<exists>s'. check_feed (world_of (Responded 200)) ''hook'' ''#aws'' ''all'' (watching\<lparr>trace := []\<rparr>) =
      Inr s' \<and> last_saved_dates s' = [''all'' \<mapsto> 100] \<and> posts (trace s') = []"
    by simp
  from h1 h2 h3 newer g1 g3 older show ?thesis by simp
qed

text \<open>
  The claim as first stated fails when the webhook cannot be reached: the newest entry
  (200) strictly exceeds the stored date (100), and the stored date stays 100.
\<close>

theorem check_feed_strictly_newer_counterexample:
  "entries (fst (fetch (world_of Unreachable) ''all'' watching)) = [resolved, incident] \<and>
   last_saved_dates watching ''all'' = Some 100 \<and>
   published_parsed resolved = 200 \<and>
   raised (check_feed (world_of Unreachable) ''hook'' ''#aws'' ''all'' watching) =
     Some ConnectionError \<and>
   last_saved_dates (state_of (check_feed (world_of Unreachable) ''hook'' ''#aws'' ''all'' watching))
     ''all'' = Some 100"
  by (simp add: run_defs scenario_defs)

text \<open>
  Claim C2, as amended. Seeding fetches the candidates in input order, one fetch for each
  place in the list. A fetch that comes back without a status ends the run there with
  \<open>AttributeError\<close>: no warning, no Watch Set, no pass of the loop. When every fetch
  has a status, seeding completes, and then: a candidate none of whose fetches returned
  200 is in neither the list of feeds nor \<open>last_saved_dates\<close>, and a warning naming its
  URL was logged; any other candidate is in the list, and its stored date is that of the
  newest entry of a fetch of it that returned 200, or \<open>START_TIME\<close> when that snapshot
  had no entries. For a candidate named once there is one fetch, and the two cases read:
  its fetch returned another status than 200, or it returned 200. After seeding only
  feeds left in the list are ever fetched, so a dropped feed is not tried again.
\<close>

theorem seeding_watch_set:
  "case seed_loop w cs (init_state cs) of
     Inl (e, s0) \<Rightarrow>
       e = AttributeError \<and>
       (\<exists>pre f d. trace s0 = pre @ [Fetch f d] \<and> status d = None) \<and>
       prefix (fetched (trace s0)) cs \<and>
       (\<forall>n. check_loop w cs hook chan n = Inl (AttributeError, s0))
   | Inr s1 \<Rightarrow>
       fetched (trace s1) = cs \<and>
       (\<forall>f d. Fetch f d \<in> set (trace s1) \<longrightarrow> status d \<noteq> None) \<and>
       (\<forall>f\<in>set cs.
          if \<exists>d. Fetch f d \<in> set (trace s1) \<and> status d = Some 200
          then f \<in> set (feeds s1) \<and>
               (\<exists>d. Fetch f d \<in> set (trace s1) \<and> status d = Some 200 \<and>
                  last_saved_dates s1 f =
                    Some (case entries d of [] \<Rightarrow> START_TIME w | e0 # _ \<Rightarrow> published_parsed e0))
          else f \<notin> set (feeds s1) \<and> last_saved_dates s1 f = None \<and>
               Log WARNING ''Ignoring not existent feed: %s'' [Str (AWS_RSS_URL f)]
                 \<in> set (trace s1)) \<and>
       (\<forall>f d. count_list cs f = 1 \<and> Fetch f d \<in> set (trace s1) \<longrightarrow>
          (if status d = Some 200
           then f \<in> set (feeds s1) \<and>
                last_saved_dates s1 f =
                  Some (case entries d of [] \<Rightarrow> START_TIME w | e0 # _ \<Rightarrow> published_parsed e0)
           else f \<notin> set (feeds s1) \<and> last_saved_dates s1 f = None \<and>
                Log WARNING ''Ignoring not existent feed: %s'' [Str (AWS_RSS_URL f)]
                  \<in> set (trace s1))) \<and>
       (\<forall>n. \<exists>tr. trace (state_of (check_loop w cs hook chan n)) = trace s1 @ tr \<and>
          set (fetched tr) \<subseteq> set (feeds s1))"
proof (cases "seed_loop w cs (init_state cs)")
  case (Inl x)
  obtain e s0 where x: "x = (e, s0)" by (cases x)
  from Inl x have s0: "seed_loop w cs (init_state cs) = Inl (e, s0)" by simp
  note stop = seeding_Inl [OF s0]
  have "check_loop w cs hook chan n = Inl (AttributeError, s0)" for n
    using check_loop_no_seed [OF s0, of hook chan n] stop(1) by simp
  with stop show ?thesis unfolding s0 by simp
next
  case (Inr s1)
  note inv = seeding_Inr(1) [OF Inr] and fs = seeding_Inr(2) [OF Inr]
  from inv have dates: "\<And>f t. last_saved_dates s1 f = Some t \<Longrightarrow>
      \<exists>d. Fetch f d \<in> set (trace s1) \<and> status d = Some 200 \<and> t = seed_date w d"
    unfolding seed_inv_def by blast
  from inv have found: "\<And>f d. Fetch f d \<in> set (trace s1) \<Longrightarrow> status d = Some 200 \<Longrightarrow>
      f \<in> dom (last_saved_dates s1)"
    unfolding seed_inv_def by meson
  from inv have warned: "\<And>f d. Fetch f d \<in> set (trace s1) \<Longrightarrow> status d \<noteq> Some 200 \<Longrightarrow>
      ignoring f \<in> set (trace s1)"
    unfolding seed_inv_def by meson
  from inv have answered: "\<forall>f d. Fetch f d \<in> set (trace s1) \<longrightarrow> status d \<noteq> None"
    unfolding seed_inv_def by meson
  have keys: "set (feeds s1) = dom (last_saved_dates s1)"
    by (rule seed_inv_end [OF inv])
  have per_feed: "if \<exists>d. Fetch f d \<in> set (trace s1) \<and> status d = Some 200
        then f \<in> set (feeds s1) \<and>
             (\<exists>d. Fetch f d \<in> set (trace s1) \<and> status d = Some 200 \<and>
                last_saved_dates s1 f = Some (seed_date w d))
        else f \<notin> set (feeds s1) \<and> last_saved_dates s1 f = None \<and>
             ignoring f \<in> set (trace s1)"
    if "f \<in> set cs" for f
  proof (cases "\<exists>d. Fetch f d \<in> set (trace s1) \<and> status d = Some 200")
    case True
    then obtain d where d: "Fetch f d \<in> set (trace s1)" "status d = Some 200" by blast
    from found [OF d] obtain t where t: "last_saved_dates s1 f = Some t" by blast
    from dates [OF t] t keys True show ?thesis by auto
  next
    case False
    from that fs obtain d where d: "Fetch f d \<in> set (trace s1)"
      using fetched_mem [of f "trace s1"] by auto
    with False have "status d \<noteq> Some 200" by blast
    from warned [OF d this] have w: "ignoring f \<in> set (trace s1)" .
    have "last_saved_dates s1 f = None"
    proof (cases "last_saved_dates s1 f")
      case (Some t)
      from dates [OF Some] False show ?thesis by blast
    qed simp
    with keys w False show ?thesis by (auto simp: domIff)
  qed
  have once: "if status d = Some 200
         then f \<in> set (feeds s1) \<and> last_saved_dates s1 f = Some (seed_date w d)
         else f \<notin> set (feeds s1) \<and> last_saved_dates s1 f = None \<and>
              ignoring f \<in> set (trace s1)"
    if c: "count_list cs f = 1" and d: "Fetch f d \<in> set (trace s1)" for f d
  proof -
    from c have "f \<in> set cs" by (metis count_list_0_iff zero_neq_one)
    note pf = per_feed [OF this]
    have uniq: "\<And>d'. Fetch f d' \<in> set (trace s1) \<Longrightarrow> d' = d"
      using fetched_once [of "trace s1" f] c d fs by blast
    show ?thesis
    proof (cases "status d = Some 200")
      case True
      with d have "\<exists>d. Fetch f d \<in> set (trace s1) \<and> status d = Some 200" by blast
      with pf obtain d' where "f \<in> set (feeds s1)" "Fetch f d' \<in> set (trace s1)"
        "last_saved_dates s1 f = Some (seed_date w d')" by auto
      with uniq True show ?thesis by auto
    next
      case False
      with uniq have "\<not> (\<exists>d. Fetch f d \<in> set (trace s1) \<and> status d = Some 200)" by blast
      with pf False show ?thesis by simp
    qed
  qed
  have A: "(\<forall>f\<in>set cs.
        if \<exists>d. Fetch f d \<in> set (trace s1) \<and> status d = Some 200
        then f \<in> set (feeds s1) \<and>
             (\<exists>d. Fetch f d \<in> set (trace s1) \<and> status d = Some 200 \<and>
                last_saved_dates s1 f =
                  Some (case entries d of [] \<Rightarrow> START_TIME w | e0 # _ \<Rightarrow> published_parsed e0))
        else f \<notin> set (feeds s1) \<and> last_saved_dates s1 f = None \<and>
             Log WARNING ''Ignoring not existent feed: %s'' [Str (AWS_RSS_URL f)]
               \<in> set (trace s1))"
    using per_feed unfolding seed_date_def ignoring_def by blast
  have B: "(\<forall>f d. count_list cs f = 1 \<and> Fetch f d \<in> set (trace s1) \<longrightarrow>
        (if status d = Some 200
         then f \<in> set (feeds s1) \<and>
              last_saved_dates s1 f =
                Some (case entries d of [] \<Rightarrow> START_TIME w | e0 # _ \<Rightarrow> published_parsed e0)
         else f \<notin> set (feeds s1) \<and> last_saved_dates s1 f = None \<and>
              Log WARNING ''Ignoring not existent feed: %s'' [Str (AWS_RSS_URL f)]
                \<in> set (trace s1)))"
    using once unfolding seed_date_def ignoring_def by blast
  have C: "(\<forall>n. \<exists>tr. trace (state_of (check_loop w cs hook chan n)) = trace s1 @ tr \<and>
        set (fetched tr) \<subseteq> set (feeds s1))"
    using check_loop_trace [OF Inr] by blast
  from fs answered A B C show ?thesis unfolding Inr by simp
qed

text \<open>Seeding \<open>ec2\<close> (one item), \<open>nope\<close> (status 404) and \<open>s3\<close> (no items).\<close>

theorem seeding_watch_set_witness:
  "(\<exists>s1. seed_loop world_names [''ec2'', ''nope'', ''s3'']
       (init_state [''ec2'', ''nope'', ''s3'']) = Inr s1) \<and>
   count_list [''ec2'', ''nope'', ''s3''] ''nope'' = 1 \<and>
   Fetch ''nope'' feed_missing \<in>
     set (trace (state_of (seed_loop world_names [''ec2'', ''nope'', ''s3'']
       (init_state [''ec2'', ''nope'', ''s3''])))) \<and>
   status feed_missing = Some 404 \<and>
   ''nope'' \<notin> set (feeds (state_of (seed_loop world_names [''ec2'', ''nope'', ''s3'']
       (init_state [''ec2'', ''nope'', ''s3''])))) \<and>
   last_saved_dates (state_of (seed_loop world_names [''ec2'', ''nope'', ''s3'']
       (init_state [''ec2'', ''nope'', ''s3'']))) ''nope'' = None \<and>
   last_saved_dates (state_of (seed_loop world_names [''ec2'', ''nope'', ''s3'']
       (init_state [''ec2'', ''nope'', ''s3'']))) ''ec2'' = Some 100 \<and>
   last_saved_dates (state_of (seed_loop world_names [''ec2'', ''nope'', ''s3'']
       (init_state [''ec2'', ''nope'', ''s3'']))) ''s3'' = Some 50"
proof -
  let ?cs = "[''ec2'', ''nope'', ''s3'']"
  have "\<exists>s1. seed_loop world_names ?cs (init_state ?cs) = Inr s1"
    by (simp add: run_defs scenario_defs)
  then obtain s1 where s1: "seed_loop world_names ?cs (init_state ?cs) = Inr s1" by blast
  from seeding_watch_set [where w = world_names and cs = ?cs and hook = "''hook''"
      and chan = "''#aws''"] s1
  have once: "\<forall>f d. count_list ?cs f = 1 \<and> Fetch f d \<in> set (trace s1) \<longrightarrow>
        (if status d = Some 200
         then f \<in> set (feeds s1) \<and>
              last_saved_dates s1 f =
                Some (case entries d of [] \<Rightarrow> START_TIME world_names
                      | e0 # _ \<Rightarrow> published_parsed e0)
         else f \<notin> set (feeds s1) \<and> last_saved_dates s1 f = None \<and>
              Log WARNING ''Ignoring not existent feed: %s'' [Str (AWS_RSS_URL f)]
                \<in> set (trace s1))"
    by simp
  have "trace (state_of (seed_loop world_names ?cs (init_state ?cs))) =
      [Fetch ''ec2'' feed_before, Sleep 2,
       Fetch ''nope'' feed_missing,
       Log WARNING ''Ignoring not existent feed: %s''
         [Str ''http://status.aws.amazon.com/rss/nope.rss''],
       Fetch ''s3'' feed_blank, Sleep 2]"
    by (simp add: run_defs scenario_defs)
  with s1 have tr: "trace s1 =
      [Fetch ''ec2'' feed_before, Sleep 2,
       Fetch ''nope'' feed_missing,
       Log WARNING ''Ignoring not existent feed: %s''
         [Str ''http://status.aws.amazon.com/rss/nope.rss''],
       Fetch ''s3'' feed_blank, Sleep 2]"
    by simp
  have c: "count_list ?cs ''nope'' = 1" "count_list ?cs ''ec2'' = 1" "count_list ?cs ''s3'' = 1"
    by simp_all
  have st: "status feed_missing = Some 404" "status feed_before = Some 200"
    "status feed_blank = Some 200"
    "entries feed_before = [incident]" "entries feed_blank = []" "published_parsed incident = 100"
    "START_TIME world_names = 50"
    by (simp_all add: scenario_defs)
  from once [rule_format, of "''nope''" feed_missing] c(1) tr st(1)
  have n: "''nope'' \<notin> set (feeds s1) \<and> last_saved_dates s1 ''nope'' = None" by simp
  from once [rule_format, of "''ec2''" feed_before] c(2) tr st
  have e: "last_saved_dates s1 ''ec2'' = Some 100" by simp
  from once [rule_format, of "''s3''" feed_blank] c(3) tr st
  have b: "last_saved_dates s1 ''s3'' = Some 50" by simp
  from s1 tr n e b c(1) st(1) show ?thesis by simp
qed

text \<open>
  The claim as first stated fails twice. With the candidate \<open>x\<close> named twice and
  answering 200, then 404: the second fetch did not return a success status, and yet
  \<open>x\<close> is in the list of feeds and in \<open>last_saved_dates\<close>, with the date of the first
  fetch, and the first pass of the loop fetches it again. With the network down, the
  fetch of \<open>all\<close> has no status: the feed is not excluded with a warning, the run ends
  with \<open>AttributeError\<close> right after the fetch.
\<close>

theorem seeding_watch_set_counterexample:
  "Fetch ''x'' feed_missing \<in>
     set (trace (state_of (seed_loop world_flaky [''x'', ''x''] (init_state [''x'', ''x''])))) \<and>
   status feed_missing = Some 404 \<and>
   feeds (state_of (seed_loop world_flaky [''x'', ''x''] (init_state [''x'', ''x'']))) = [''x''] \<and>
   last_saved_dates (state_of (seed_loop world_flaky [''x'', ''x''] (init_state [''x'', ''x''])))
     ''x'' = Some 100 \<and>
   fetched (trace (state_of (check_loop world_flaky [''x'', ''x''] ''hook'' ''#aws'' (Suc 0)))) =
     [''x'', ''x'', ''x''] \<and>
   status feed_offline = None \<and>
   raised (check_loop world_offline [''all''] ''hook'' ''#aws'' (Suc 0)) = Some AttributeError \<and>
   trace (state_of (check_loop world_offline [''all''] ''hook'' ''#aws'' (Suc 0))) =
     [Fetch ''all'' feed_offline]"
  by (simp add: run_defs scenario_defs)

text \<open>
  Claim C3. The colour of a notification is chosen from the title of the entry, the first
  match winning: \<open>good\<close> (Informational-Resolved) when the title contains
  \<open>Service is operating normally:\<close>, else \<open>warning\<close> (Informational) when it
  contains \<open>Informational message:\<close>, else \<open>danger\<close> (Alert). \<open>send_to_slack\<close>
  posts exactly one payload, whose single attachment carries that colour. "Contains" is
  the library's \<open>sublist\<close>: the pattern occurs as a contiguous run of the title.
\<close>

theorem send_to_slack_color_by_title:
  "posts (trace (state_of (send_to_slack w item hook chan s))) =
     posts (trace s) @ [(hook, slack_payload item chan)] \<and>
   map color (attachments (slack_payload item chan)) =
     [if sublist ''Service is operating normally:'' (title item) then ''good''
      else if sublist ''Informational message:'' (title item) then ''warning''
      else ''danger'']"
proof -
  have "posts (trace (state_of (send_to_slack w item hook chan s))) =
     posts (trace s) @ [(hook, slack_payload item chan)]"
  proof (cases "requests_post w (length (trace s))")
    case (Responded code)
    from send_to_slack_Responded [OF this] show ?thesis by simp
  next
    case Unreachable
    from send_to_slack_Unreachable [OF this] show ?thesis by simp
  qed
  moreover have "map color (attachments (slack_payload item chan)) =
     [if sublist ''Service is operating normally:'' (title item) then ''good''
      else if sublist ''Informational message:'' (title item) then ''warning''
      else ''danger'']"
    by (simp add: slack_payload_def message_color_def str_in_sublist)
  ultimately show ?thesis by simp
qed

text \<open>
  Claim C4, as amended. If seeding leaves no feed, the Watch Set is empty and
  \<open>check_loop\<close> ends with \<open>SystemExit 1\<close> right after logging an error that names the
  URL of the feed \<open>all\<close>, however many passes were asked for: no pass of the
  steady-state loop is made. This is the only way \<open>sys.exit\<close> is reached. It is not the
  only way a run ends with a non-zero status: once seeding has completed, the
  \<open>ConnectionError\<close> of a post to an unreachable webhook ends it, with feeds being
  watched; and seeding itself does not complete when a fetch comes back without a
  status, the run ending with \<open>AttributeError\<close>. The interpreter exits with status 1
  in each case.
\<close>

theorem check_loop_exit:
  "case seed_loop w cs (init_state cs) of
     Inl (e0, s0) \<Rightarrow>
       e0 = AttributeError \<and> exit_status e0 = 1 \<and>
       (\<exists>pre f d. trace s0 = pre @ [Fetch f d] \<and> status d = None) \<and>
       (\<forall>n. check_loop w cs hook chan n = Inl (AttributeError, s0))
   | Inr s1 \<Rightarrow>
       (feeds s1 = [] \<longrightarrow>
          dom (last_saved_dates s1) = {} \<and>
          (\<forall>n. check_loop w cs hook chan n =
             Inl (SystemExit 1,
                  s1\<lparr>trace := trace s1 @
                    [Log ERROR ''No valid feeds left. TIP: Do not specify feeds to watch %s.''
                       [Str ''http://status.aws.amazon.com/rss/all.rss'']]\<rparr>))) \<and>
       (\<forall>n e s'. check_loop w cs hook chan n = Inl (e, s') \<longrightarrow>
          exit_status e = 1 \<and>
          (e = SystemExit 1 \<and> feeds s1 = [] \<or>
           e = ConnectionError \<and> feeds s1 \<noteq> [] \<and> (\<exists>t. requests_post w t = Unreachable)))"
proof (cases "seed_loop w cs (init_state cs)")
  case (Inl x)
  obtain e0 s0 where x: "x = (e0, s0)" by (cases x)
  from Inl x have s0: "seed_loop w cs (init_state cs) = Inl (e0, s0)" by simp
  note stop = seeding_Inl [OF s0]
  have "check_loop w cs hook chan n = Inl (AttributeError, s0)" for n
    using check_loop_no_seed [OF s0, of hook chan n] stop(1) by simp
  with stop(1,2) show ?thesis unfolding s0 by simp
next
  case (Inr s1)
  note inv = seeding_Inr(1) [OF Inr]
  have a: "dom (last_saved_dates s1) = {}" if "feeds s1 = []"
    using seed_inv_end [OF inv] that by simp
  have b: "check_loop w cs hook chan n =
           Inl (SystemExit 1,
                s1\<lparr>trace := trace s1 @
                  [Log ERROR ''No valid feeds left. TIP: Do not specify feeds to watch %s.''
                     [Str ''http://status.aws.amazon.com/rss/all.rss'']]\<rparr>)"
    if "feeds s1 = []" for n
    using Inr that by (simp add: check_loop_def emit_def AWS_RSS_URL_def)
  have c: "exit_status e = 1 \<and>
        (e = SystemExit 1 \<and> feeds s1 = [] \<or>
         e = ConnectionError \<and> feeds s1 \<noteq> [] \<and> (\<exists>t. requests_post w t = Unreachable))"
    if "check_loop w cs hook chan n = Inl (e, s')" for n e s'
    using check_loop_raises [OF that] Inr by auto
  have A: "feeds s1 = [] \<longrightarrow>
          dom (last_saved_dates s1) = {} \<and>
          (\<forall>n. check_loop w cs hook chan n =
             Inl (SystemExit 1,
                  s1\<lparr>trace := trace s1 @
                    [Log ERROR ''No valid feeds left. TIP: Do not specify feeds to watch %s.''
                       [Str ''http://status.aws.amazon.com/rss/all.rss'']]\<rparr>))"
    using a b by blast
  have B: "\<forall>n e s'. check_loop w cs hook chan n = Inl (e, s') \<longrightarrow>
          exit_status e = 1 \<and>
          (e = SystemExit 1 \<and> feeds s1 = [] \<or>
           e = ConnectionError \<and> feeds s1 \<noteq> [] \<and> (\<exists>t. requests_post w t = Unreachable))"
    using c by blast
  from A B show ?thesis unfolding Inr by simp
qed

text \<open>The only candidate does not exist.\<close>

theorem check_loop_exit_witness:
  "feeds (state_of (seed_loop world_names [''nope''] (init_state [''nope'']))) = [] \<and>
   raised (check_loop world_names [''nope''] ''hook'' ''#aws'' (Suc (Suc 0))) =
     Some (SystemExit 1) \<and>
   trace (state_of (check_loop world_names [''nope''] ''hook'' ''#aws'' (Suc (Suc 0)))) =
     [Fetch ''nope'' feed_missing,
      Log WARNING ''Ignoring not existent feed: %s''
        [Str ''http://status.aws.amazon.com/rss/nope.rss''],
      Log ERROR ''No valid feeds left. TIP: Do not specify feeds to watch %s.''
        [Str ''http://status.aws.amazon.com/rss/all.rss'']]"
proof -
  let ?s1 = "\<lparr>feeds = [], last_saved_dates = Map.empty,
           trace = [Fetch ''nope'' feed_missing,
             Log WARNING ''Ignoring not existent feed: %s''
               [Str ''http://status.aws.amazon.com/rss/nope.rss'']]\<rparr>"
  have ev: "seed_loop world_names [''nope''] (init_state [''nope'']) = Inr ?s1"
    by (simp add: run_defs scenario_defs)
  from check_loop_exit [where w = world_names and cs = "[''nope'']" and hook = "''hook''"
      and chan = "''#aws''"]
  have ex: "feeds ?s1 = [] \<longrightarrow>
        dom (last_saved_dates ?s1) = {} \<and>
        (\<forall>n. check_loop world_names [''nope''] ''hook'' ''#aws'' n =
           Inl (SystemExit 1,
                ?s1\<lparr>trace := trace ?s1 @
                  [Log ERROR ''No valid feeds left. TIP: Do not specify feeds to watch %s.''
                     [Str ''http://status.aws.amazon.com/rss/all.rss'']]\<rparr>))"
    unfolding ev sum.case by (rule conjunct1)
  have "feeds ?s1 = []" by simp
  with ex have "check_loop world_names [''nope''] ''hook'' ''#aws'' (Suc (Suc 0)) =
           Inl (SystemExit 1,
                ?s1\<lparr>trace := trace ?s1 @
                  [Log ERROR ''No valid feeds left. TIP: Do not specify feeds to watch %s.''
                     [Str ''http://status.aws.amazon.com/rss/all.rss'']]\<rparr>)"
    by blast
  then have "check_loop world_names [''nope''] ''hook'' ''#aws'' (Suc (Suc 0)) =
      Inl (SystemExit 1,
        \<lparr>feeds = [], last_saved_dates = Map.empty,
           trace = [Fetch ''nope'' feed_missing,
             Log WARNING ''Ignoring not existent feed: %s''
               [Str ''http://status.aws.amazon.com/rss/nope.rss''],
             Log ERROR ''No valid feeds left. TIP: Do not specify feeds to watch %s.''
               [Str ''http://status.aws.amazon.com/rss/all.rss'']]\<rparr>)"
    by simp
  with ev show ?thesis by (simp add: raised_def)
qed

text \<open>
  The claim as first stated fails when the webhook cannot be reached: the feed \<open>all\<close>
  is being watched, and the first pass ends the process with a non-zero status.
\<close>

theorem check_loop_exit_counterexample:
  "feeds (state_of (seed_loop (world_of Unreachable) [''all''] (init_state [''all'']))) = [''all''] \<and>
   raised (check_loop (world_of Unreachable) [''all''] ''hook'' ''#aws'' (Suc 0)) =
     Some ConnectionError \<and>
   exit_status ConnectionError = 1"
  by (simp add: run_defs scenario_defs)

text \<open>
  Claim C5, as amended. When a notification is due, what the post to the webhook does
  decides the iteration. If it returns a response, whatever its status code,
  \<open>send_to_slack\<close> logs \<open>Notification sent to Slack!\<close> at level INFO, the stored date
  advances to the newest entry's date, the loop sleeps and goes on with the next feed:
  a non-success response is neither noticed nor reported, and nothing is sent again.
  If the endpoint cannot be reached, \<open>requests.post\<close> raises \<open>ConnectionError\<close>; no
  message reports it, the stored date is unchanged, and the exception leaves the pass
  over the feeds and the \<open>while True\<close> loop.
\<close>

theorem dispatch_failure_effects:
  assumes "entries (fst (fetch w feed s)) = e0 # es"
    and "last_saved_dates s feed = Some saved"
    and "saved < published_parsed e0"
  shows "case requests_post w (length (trace s) + 2) of
           Responded code \<Rightarrow>
             (\<exists>s'. check_feed w hook chan feed s = Inr s' \<and>
                last_saved_dates s' = (last_saved_dates s)(feed \<mapsto> published_parsed e0) \<and>
                trace s' = trace s @
                  [Fetch feed (fst (fetch w feed s)),
                   Log DEBUG ''Feed: %s\<newline>Last saved date: %s\<newline>Last gotten date: %s''
                     [Str feed, Date saved, Date (published_parsed e0)],
                   Post hook (slack_payload e0 chan),
                   Log INFO ''Notification sent to Slack!'' [],
                   Sleep REQUESTS_INTERVAL] \<and>
                for_feeds w hook chan (feed # rest) s = for_feeds w hook chan rest s')
         | Unreachable \<Rightarrow>
             (\<exists>s'. check_feed w hook chan feed s = Inl (ConnectionError, s') \<and>
                last_saved_dates s' = last_saved_dates s \<and>
                trace s' = trace s @
                  [Fetch feed (fst (fetch w feed s)),
                   Log DEBUG ''Feed: %s\<newline>Last saved date: %s\<newline>Last gotten date: %s''
                     [Str feed, Date saved, Date (published_parsed e0)],
                   Post hook (slack_payload e0 chan)] \<and>
                for_feeds w hook chan (feed # rest) s = Inl (ConnectionError, s') \<and>
                (\<forall>s0 n. feeds s0 = feed # rest \<and>
                    emit (Log DEBUG ''Starting a new check.'' []) s0 = s \<longrightarrow>
                    while_true w hook chan (Suc n) s0 = Inl (ConnectionError, s')))"
proof (cases "requests_post w (length (trace s) + 2)")
  case (Responded code)
  from check_feed_newer_Responded [OF assms this, of hook chan] Responded
  show ?thesis by simp
next
  case Unreachable
  from check_feed_newer_Unreachable [OF assms this, of hook chan] Unreachable
  show ?thesis by auto
qed

text \<open>
  The webhook answers with status 500; and the webhook cannot be reached during the
  first pass of the loop.
\<close>

theorem dispatch_failure_effects_witness:
  "entries (fst (fetch (world_of (Responded 500)) ''all'' watching)) = [resolved, incident] \<and>
   last_saved_dates watching ''all'' = Some 100 \<and>
   100 < published_parsed resolved \<and>
   requests_post (world_of (Responded 500)) (length (trace watching) + 2) = Responded 500 \<and>
   (\<exists>s'. check_feed (world_of (Responded 500)) ''hook'' ''#aws'' ''all'' watching = Inr s' \<and>
      last_saved_dates s' = [''all'' \<mapsto> 200] \<and>
      for_feeds (world_of (Responded 500)) ''hook'' ''#aws'' [''all''] watching = Inr s') \<and>
   raised (while_true (world_of Unreachable) ''hook'' ''#aws'' (Suc 0) watching) =
     Some ConnectionError"
proof -
  have h1: "entries (fst (fetch (world_of (Responded 500)) ''all'' watching)) = resolved # [incident]"
    by (simp add: scenario_defs)
  have h2: "last_saved_dates watching ''all'' = Some 100"
    by (simp add: watching_def)
  have h3: "(100::int) < published_parsed resolved"
    by (simp add: resolved_def)
  have e: "requests_post (world_of (Responded 500)) (length (trace watching) + 2) = Responded 500"
    "last_saved_dates watching = [''all'' \<mapsto> 100]" "published_parsed resolved = 200"
    by (simp_all add: world_of_def watching_def resolved_def)
  from dispatch_failure_effects [OF h1 h2 h3, of "''hook''" "''#aws''" "[]"] e
  have answered:
    "\<exists>s'. check_feed (world_of (Responded 500)) ''hook'' ''#aws'' ''all'' watching = Inr s' \<and>
      last_saved_dates s' = [''all'' \<mapsto> 200] \<and>
      for_feeds (world_of (Responded 500)) ''hook'' ''#aws'' [''all''] watching = Inr s'"
    by auto
  let ?s = "emit (Log DEBUG ''Starting a new check.'' []) watching"
  have u1: "entries (fst (fetch (world_of Unreachable) ''all'' ?s)) = resolved # [incident]"
    by (simp add: scenario_defs)
  have u2: "last_saved_dates ?s ''all'' = Some 100"
    by (simp add: watching_def)
  have u3: "requests_post (world_of Unreachable) (length (trace ?s) + 2) = Unreachable"
    by (simp add: world_of_def)
  from dispatch_failure_effects [OF u1 u2 h3, of "''hook''" "''#aws''" "[]"] u3
  obtain s' where "\<forall>s0 n. feeds s0 = [''all''] \<and>
      emit (Log DEBUG ''Starting a new check.'' []) s0 = ?s \<longrightarrow>
      while_true (world_of Unreachable) ''hook'' ''#aws'' (Suc n) s0 = Inl (ConnectionError, s')"
    by auto
  moreover have "feeds watching = [''all'']" by (simp add: watching_def)
  ultimately have
    "while_true (world_of Unreachable) ''hook'' ''#aws'' (Suc 0) watching = Inl (ConnectionError, s')"
    by blast
  then have "raised (while_true (world_of Unreachable) ''hook'' ''#aws'' (Suc 0) watching) =
     Some ConnectionError"
    by (simp add: raised_def)
  with h1 h2 h3 e(1) answered show ?thesis by simp
qed

text \<open>
  The claim as first stated fails twice. With the webhook unreachable, the pass over
  \<open>all\<close> and \<open>ec2\<close> ends with \<open>ConnectionError\<close> after the post for \<open>all\<close>, \<open>ec2\<close> is
  never fetched, and no warning is logged. With a response of status 500, the only
  message logged after the post is the INFO message of a successful notification.
\<close>

theorem dispatch_failure_counterexample:
  "trace (state_of (for_feeds (world_of Unreachable) ''hook'' ''#aws'' [''all'', ''ec2''] watching)) =
     trace watching @
     [Fetch ''all'' feed_after,
      Log DEBUG ''Feed: %s\<newline>Last saved date: %s\<newline>Last gotten date: %s''
        [Str ''all'', Date 100, Date 200],
      Post ''hook'' (slack_payload resolved ''#aws'')] \<and>
   raised (for_feeds (world_of Unreachable) ''hook'' ''#aws'' [''all'', ''ec2''] watching) =
     Some ConnectionError \<and>
   trace (state_of (for_feeds (world_of (Responded 500)) ''hook'' ''#aws'' [''all''] watching)) =
     trace watching @
     [Fetch ''all'' feed_after,
      Log DEBUG ''Feed: %s\<newline>Last saved date: %s\<newline>Last gotten date: %s''
        [Str ''all'', Date 100, Date 200],
      Post ''hook'' (slack_payload resolved ''#aws''),
      Log INFO ''Notification sent to Slack!'' [],
      Sleep 2]"
  by (simp add: run_defs scenario_defs)

text \<open>
  Claim C6. In the steady-state loop, a feed whose fetched snapshot has no entries is
  skipped: the iteration ends normally, \<open>last_saved_dates\<close> (the whole dictionary) and
  the list of feeds are unchanged, nothing is posted, and the loop goes on with the next
  feed.
\<close>

theorem check_feed_without_entries:
  assumes "entries (fst (fetch w feed s)) = []"
  shows "\<exists>s'. check_feed w hook chan feed s = Inr s' \<and>
           feeds s' = feeds s \<and> last_saved_dates s' = last_saved_dates s \<and>
           posts (trace s') = posts (trace s) \<and>
           for_feeds w hook chan (feed # rest) s = for_feeds w hook chan rest s'"
  using check_feed_empty [OF assms, of hook chan] by simp

text \<open>In \<open>world_names\<close> the feed \<open>all\<close> is empty.\<close>

theorem check_feed_without_entries_witness:
  "entries (fst (fetch world_names ''all'' watching)) = [] \<and>
   (\<exists>s'. check_feed world_names ''hook'' ''#aws'' ''all'' watching = Inr s' \<and>
      feeds s' = [''all''] \<and> last_saved_dates s' ''all'' = Some 100 \<and>
      posts (trace s') = [] \<and>
      for_feeds world_names ''hook'' ''#aws'' [''all'', ''ec2''] watching =
        for_feeds world_names ''hook'' ''#aws'' [''ec2''] s')"
proof -
  have h: "entries (fst (fetch world_names ''all'' watching)) = []"
    by (simp add: scenario_defs)
  from check_feed_without_entries [OF h, of "''hook''" "''#aws''" "[''ec2'']"] obtain s' where
    s': "check_feed world_names ''hook'' ''#aws'' ''all'' watching = Inr s'"
      "feeds s' = feeds watching" "last_saved_dates s' = last_saved_dates watching"
      "posts (trace s') = posts (trace watching)"
      "for_feeds world_names ''hook'' ''#aws'' [''all'', ''ec2''] watching =
        for_feeds world_names ''hook'' ''#aws'' [''ec2''] s'"
    by blast
  have "feeds watching = [''all'']" "last_saved_dates watching ''all'' = Some 100"
    "posts (trace watching) = []"
    by (simp_all add: watching_def)
  with h s' show ?thesis by simp
qed

text \<open>
  Claim C7. One pass over two feeds that are both empty: the second fetch follows the
  first with no sleep in between, because the \<open>continue\<close> of the empty-snapshot
  branch skips \<open>time.sleep(REQUESTS_INTERVAL)\<close>. The only sleep of the pass is the
  one of \<open>CHECKS_INTERVAL\<close> at its end.
\<close>

theorem empty_feed_skips_pause:
  "while_true world_names ''hook'' ''#aws'' (Suc 0) watching_two =
     Inr (watching_two\<lparr>trace :=
       [Log DEBUG ''Starting a new check.'' [],
        Fetch ''s3'' feed_blank,
        Log DEBUG ''Feed without entries: %s.\<newline>Data: %s.'' [Str ''s3'', Data feed_blank],
        Fetch ''sqs'' feed_blank,
        Log DEBUG ''Feed without entries: %s.\<newline>Data: %s.'' [Str ''sqs'', Data feed_blank],
        Sleep CHECKS_INTERVAL]\<rparr>) \<and>
   slept [Fetch ''s3'' feed_blank,
        Log DEBUG ''Feed without entries: %s.\<newline>Data: %s.'' [Str ''s3'', Data feed_blank],
        Fetch ''sqs'' feed_blank] = 0 \<and>
   0 < REQUESTS_INTERVAL"
  by (simp add: run_defs scenario_defs watching_two_def)

text \<open>
  Claim C8. A date stored for a feed never decreases and is never deleted in the
  steady-state loop: one iteration leaves it as it is or replaces it by a strictly
  greater one, and so does a whole pass over the feeds and any number of passes,
  whether or not an exception ends them. Over a run of \<open>check_loop\<close>: the date a
  feed has after \<open>m\<close> passes is still there, equal or later, after any \<open>n \<ge> m\<close> passes
  (\<open>m = 0\<close> is the state seeding left).
\<close>

theorem last_saved_dates_never_decrease:
  assumes "last_saved_dates s f = Some t"
  shows "(\<exists>t'. last_saved_dates (state_of (check_feed w hook chan feed s)) f = Some t' \<and>
            (t' = t \<or> t < t')) \<and>
         (\<exists>t'. last_saved_dates (state_of (for_feeds w hook chan fs s)) f = Some t' \<and> t \<le> t') \<and>
         (\<exists>t'. last_saved_dates (state_of (while_true w hook chan n s)) f = Some t' \<and> t \<le> t') \<and>
         (s = state_of (check_loop w cs hook chan m) \<and> m \<le> n \<longrightarrow>
            (\<exists>t'. last_saved_dates (state_of (check_loop w cs hook chan n)) f = Some t' \<and> t \<le> t'))"
proof (intro conjI impI)
  from check_feed_keeps [of s w hook chan feed] assms
  show "\<exists>t'. last_saved_dates (state_of (check_feed w hook chan feed s)) f = Some t' \<and>
            (t' = t \<or> t < t')"
    unfolding keeps_def by (metis order_le_less)
  from for_feeds_keeps [of s w hook chan fs] assms
  show "\<exists>t'. last_saved_dates (state_of (for_feeds w hook chan fs s)) f = Some t' \<and> t \<le> t'"
    unfolding keeps_def by blast
  from while_true_keeps [of s w hook chan n] assms
  show "\<exists>t'. last_saved_dates (state_of (while_true w hook chan n s)) f = Some t' \<and> t \<le> t'"
    unfolding keeps_def by blast
next
  assume "s = state_of (check_loop w cs hook chan m) \<and> m \<le> n"
  then have s: "s = state_of (check_loop w cs hook chan m)" and mn: "m \<le> n" by simp_all
  from check_loop_later_keeps [OF mn, of w cs hook chan] assms
  show "\<exists>t'. last_saved_dates (state_of (check_loop w cs hook chan n)) f = Some t' \<and> t \<le> t'"
    unfolding keeps_def s by blast
qed

text \<open>
  Two passes over the feed \<open>all\<close>, whose newest item moves from 100 to 200; and
  the same feed from its seeding to the end of the first pass.
\<close>

theorem last_saved_dates_never_decrease_witness:
  "last_saved_dates watching ''all'' = Some 100 \<and>
   last_saved_dates (state_of (while_true (world_of (Responded 200)) ''hook'' ''#aws''
      (Suc (Suc 0)) watching)) ''all'' = Some 200 \<and>
   (\<exists>t'. last_saved_dates (state_of (while_true (world_of (Responded 200)) ''hook'' ''#aws''
      (Suc (Suc 0)) watching)) ''all'' = Some t' \<and> 100 \<le> t') \<and>
   last_saved_dates (state_of (check_loop (world_of (Responded 200)) [''all''] ''hook'' ''#aws'' 0))
     ''all'' = Some 100 \<and>
   (\<exists>t'. last_saved_dates
      (state_of (check_loop (world_of (Responded 200)) [''all''] ''hook'' ''#aws'' (Suc 0)))
      ''all'' = Some t' \<and> 100 \<le> t')"
proof -
  have h: "last_saved_dates watching ''all'' = Some 100"
    by (simp add: watching_def)
  have v: "last_saved_dates (state_of (while_true (world_of (Responded 200)) ''hook'' ''#aws''
      (Suc (Suc 0)) watching)) ''all'' = Some 200"
    by (simp add: run_defs scenario_defs)
  from last_saved_dates_never_decrease [OF h, of "world_of (Responded 200)" "''hook''" "''#aws''"
      "''all''" "[]" "Suc (Suc 0)"]
  have a: "\<exists>t'. last_saved_dates (state_of (while_true (world_of (Responded 200)) ''hook'' ''#aws''
      (Suc (Suc 0)) watching)) ''all'' = Some t' \<and> 100 \<le> t'"
    by blast
  let ?s = "state_of (check_loop (world_of (Responded 200)) [''all''] ''hook'' ''#aws'' 0)"
  have g: "last_saved_dates ?s ''all'' = Some 100"
    by (simp add: run_defs scenario_defs)
  from last_saved_dates_never_decrease [OF g, of "world_of (Responded 200)" "''hook''" "''#aws''"
      "''all''" "[]" "Suc 0" "[''all'']" 0]
  have b: "\<exists>t'. last_saved_dates
      (state_of (check_loop (world_of (Responded 200)) [''all''] ''hook'' ''#aws'' (Suc 0)))
      ''all'' = Some t' \<and> 100 \<le> t'"
    by blast
  from h v a g b show ?thesis by simp
qed

text \<open>
  Claim C9. After seeding has completed, the keys of \<open>last_saved_dates\<close> are exactly
  the feeds left in the list. No iteration of the steady-state loop changes the list or
  the set of keys, they are the same in every later state of \<open>check_loop\<close>, and the
  lookup \<open>last_saved_dates[feed]\<close> never raises \<open>KeyError\<close>. (Seeding does not complete
  only when a fetch comes back without a status: the run then ends with
  \<open>AttributeError\<close> and the loop is never entered.)
\<close>

theorem watch_set_keys_fixed:
  "(case seed_loop w cs (init_state cs) of
      Inl (e, s0) \<Rightarrow>
        e = AttributeError \<and> check_loop w cs hook chan n = Inl (AttributeError, s0)
    | Inr s1 \<Rightarrow>
        dom (last_saved_dates s1) = set (feeds s1) \<and>
        feeds (state_of (check_loop w cs hook chan n)) = feeds s1 \<and>
        dom (last_saved_dates (state_of (check_loop w cs hook chan n))) =
          dom (last_saved_dates s1)) \<and>
   check_loop w cs hook chan n \<noteq> Inl (KeyError, s') \<and>
   feeds (state_of (check_feed w hook chan feed s)) = feeds s \<and>
   dom (last_saved_dates (state_of (check_feed w hook chan feed s))) =
     dom (last_saved_dates s)"
proof -
  have seeded: "case seed_loop w cs (init_state cs) of
      Inl (e, s0) \<Rightarrow>
        e = AttributeError \<and> check_loop w cs hook chan n = Inl (AttributeError, s0)
    | Inr s1 \<Rightarrow>
        dom (last_saved_dates s1) = set (feeds s1) \<and>
        feeds (state_of (check_loop w cs hook chan n)) = feeds s1 \<and>
        dom (last_saved_dates (state_of (check_loop w cs hook chan n))) =
          dom (last_saved_dates s1)"
  proof (cases "seed_loop w cs (init_state cs)")
    case (Inl x)
    obtain e s0 where x: "x = (e, s0)" by (cases x)
    from Inl x have s0: "seed_loop w cs (init_state cs) = Inl (e, s0)" by simp
    from check_loop_no_seed [OF s0, of hook chan n] seeding_Inl(1) [OF s0]
    show ?thesis unfolding s0 by simp
  next
    case (Inr s1)
    have "keeps s1 (state_of (check_loop w cs hook chan n))"
      by (rule check_loop_keeps [OF Inr])
    with seed_inv_end [OF seeding_Inr(1) [OF Inr]] show ?thesis
      unfolding Inr by (simp add: keeps_def)
  qed
  have "keeps s (state_of (check_feed w hook chan feed s))"
    by (rule check_feed_keeps)
  moreover have "check_loop w cs hook chan n \<noteq> Inl (KeyError, s')"
    using check_loop_raises [of w cs hook chan n KeyError s'] by auto
  ultimately show ?thesis
    using seeded by (simp add: keeps_def)
qed

text \<open>
  Seeding \<open>ec2\<close>, \<open>nope\<close> and \<open>s3\<close> completes and leaves \<open>ec2\<close> and \<open>s3\<close>, in the list
  and as keys, also after the first pass.
\<close>

theorem watch_set_keys_fixed_witness:
  "(\<exists>s1. seed_loop world_names [''ec2'', ''nope'', ''s3'']
       (init_state [''ec2'', ''nope'', ''s3'']) = Inr s1) \<and>
   feeds (state_of (check_loop world_names [''ec2'', ''nope'', ''s3''] ''hook'' ''#aws'' (Suc 0))) =
     [''ec2'', ''s3''] \<and>
   dom (last_saved_dates
     (state_of (check_loop world_names [''ec2'', ''nope'', ''s3''] ''hook'' ''#aws'' (Suc 0)))) =
     {''ec2'', ''s3''}"
proof -
  let ?cs = "[''ec2'', ''nope'', ''s3'']"
  have "\<exists>s1. seed_loop world_names ?cs (init_state ?cs) = Inr s1"
    by (simp add: run_defs scenario_defs)
  then obtain s1 where s1: "seed_loop world_names ?cs (init_state ?cs) = Inr s1" by blast
  have "feeds (state_of (seed_loop world_names ?cs (init_state ?cs))) = [''ec2'', ''s3'']"
    by (simp add: run_defs scenario_defs)
  with s1 have f: "feeds s1 = [''ec2'', ''s3'']" by simp
  from watch_set_keys_fixed [where w = world_names and cs = ?cs and hook = "''hook''"
      and chan = "''#aws''" and n = "Suc 0"] s1
  have "dom (last_saved_dates s1) = set (feeds s1)"
    "feeds (state_of (check_loop world_names ?cs ''hook'' ''#aws'' (Suc 0))) = feeds s1"
    "dom (last_saved_dates (state_of (check_loop world_names ?cs ''hook'' ''#aws'' (Suc 0)))) =
       dom (last_saved_dates s1)"
    by simp_all
  with f s1 show ?thesis by auto
qed

text \<open>
  Claim C10. \<open>last_pub_date\<close> indexes \<open>entries[0]\<close> without a check of its own, so it
  raises \<open>IndexError\<close> exactly on a snapshot without entries. Both call sites test the
  list first: no iteration of the seeding loop, no iteration of the steady-state loop,
  and so no run of \<open>check_loop\<close>, ends with an \<open>IndexError\<close>.
\<close>

theorem last_pub_date_never_out_of_range:
  "(last_pub_date data = Inl IndexError) = (entries data = []) \<and>
   seed_feed w feed s \<noteq> Inl (IndexError, s') \<and>
   check_feed w hook chan feed s \<noteq> Inl (IndexError, s') \<and>
   check_loop w cs hook chan n \<noteq> Inl (IndexError, s')"
proof (intro conjI)
  show "(last_pub_date data = Inl IndexError) = (entries data = [])"
    by (rule last_pub_date_IndexError)
  show "seed_feed w feed s \<noteq> Inl (IndexError, s')"
    using seed_feed_raises [of w feed s IndexError s'] by auto
  show "check_feed w hook chan feed s \<noteq> Inl (IndexError, s')"
    using check_feed_raises [of w hook chan feed s IndexError s'] by auto
  show "check_loop w cs hook chan n \<noteq> Inl (IndexError, s')"
    using check_loop_raises [of w cs hook chan n IndexError s'] by auto
qed

end
